theory Spec2Isabelle
  imports Complex_Main "HOL-Library.AList" "HOL-Library.Word"
begin

unbundle bit_operations_syntax

section \<open>Python values and exceptions\<close>

text \<open>
  The service is written in Python. Exceptions are modelled as values of the type
  \<open>py_error\<close>, and a computation that may raise returns \<open>py_error + 'a\<close> with
  \<open>Inl\<close> for the raised exception.
\<close>

datatype py_error = AttributeError | TypeError | KeyError | IndexError | ValueError

definition bind_sum :: "'e + 'a \<Rightarrow> ('a \<Rightarrow> 'e + 'b) \<Rightarrow> 'e + 'b" where
  "bind_sum m f = (case m of Inl e \<Rightarrow> Inl e | Inr x \<Rightarrow> f x)"

text \<open>
  The entities and datasets that the scorer and the parser handle are what \<open>json.loads\<close>
  returns: \<open>None\<close>, booleans, numbers, strings, lists, and dicts with string keys. A number
  is a rational here (the scores are quotients of decimal constants; the rounding of floats
  is not modelled). A dict is an association list read with \<open>map_of\<close> and written with
  \<open>AList.update\<close>.
\<close>

datatype json =
  JNull | JBool bool | JNum rat | JStr string | JArr "json list" | JObj "(string \<times> json) list"

text \<open>Python's truth value of an object, as in \<open>if event.get('title'):\<close>.\<close>

fun truthy :: "json \<Rightarrow> bool" where
  "truthy JNull = False"
| "truthy (JBool b) = b"
| "truthy (JNum n) = (n \<noteq> 0)"
| "truthy (JStr s) = (s \<noteq> [])"
| "truthy (JArr xs) = (xs \<noteq> [])"
| "truthy (JObj kvs) = (kvs \<noteq> [])"

text \<open>\<open>d.get(k)\<close> and \<open>d.get(k, default)\<close> on a dict.\<close>

definition dict_get :: "(string \<times> json) list \<Rightarrow> string \<Rightarrow> json" where
  "dict_get d k = (case map_of d k of None \<Rightarrow> JNull | Some v \<Rightarrow> v)"

definition dict_get_default :: "(string \<times> json) list \<Rightarrow> string \<Rightarrow> json \<Rightarrow> json" where
  "dict_get_default d k dflt = (case map_of d k of None \<Rightarrow> dflt | Some v \<Rightarrow> v)"

text \<open>
  \<open>x[k] = v\<close>: item assignment with a string key works on a dict only.
  \<open>for e in x\<close>: a list gives its elements, a string its characters, a dict its keys;
  \<open>None\<close>, a boolean or a number raises \<open>TypeError\<close>.
\<close>

fun dict_set :: "json \<Rightarrow> string \<Rightarrow> json \<Rightarrow> py_error + json" where
  "dict_set (JObj d) k v = Inr (JObj (AList.update k v d))"
| "dict_set _ k v = Inl TypeError"

fun py_iter :: "json \<Rightarrow> py_error + json list" where
  "py_iter (JArr xs) = Inr xs"
| "py_iter (JStr s) = Inr (map (\<lambda>c. JStr [c]) s)"
| "py_iter (JObj kvs) = Inr (map (\<lambda>kv. JStr (fst kv)) kvs)"
| "py_iter _ = Inl TypeError"

subsection \<open>String methods\<close>

text \<open>
  A string is a list of characters with codes 0 to 255. The characters for which
  \<open>str.isspace\<close> holds in that range are the ones that \<open>strip()\<close>, \<open>split()\<close> and
  the regular expression \<open>\s\<close> treat as white space.
\<close>

definition whitespace :: "char list" where
  "whitespace = [CHR 0x09, CHR 0x0A, CHR 0x0B, CHR 0x0C, CHR 0x0D, CHR 0x1C, CHR 0x1D, CHR 0x1E,
                 CHR 0x1F, CHR 0x20, CHR 0x85, CHR 0xA0]"

definition is_space :: "char \<Rightarrow> bool" where
  "is_space c \<longleftrightarrow> c \<in> set whitespace"

definition lstrip :: "string \<Rightarrow> string" where
  "lstrip s = dropWhile is_space s"

definition rstrip :: "string \<Rightarrow> string" where
  "rstrip s = rev (dropWhile is_space (rev s))"

definition strip :: "string \<Rightarrow> string" where
  "strip s = rstrip (lstrip s)"

text \<open>
  \<open>lower()\<close> on the letters A to Z. The code only compares lowered strings with
  ASCII words, and no other character lowers to an ASCII letter.
\<close>

definition lower_char :: "char \<Rightarrow> char" where
  "lower_char c =
     (case map_of (zip ''ABCDEFGHIJKLMNOPQRSTUVWXYZ'' ''abcdefghijklmnopqrstuvwxyz'') c of
        Some l \<Rightarrow> l
      | None \<Rightarrow> c)"

definition lower :: "string \<Rightarrow> string" where
  "lower s = map lower_char s"

text \<open>\<open>s.startswith(p)\<close>, \<open>s.endswith(p)\<close> and \<open>k in s\<close>.\<close>

fun startswith :: "string \<Rightarrow> string \<Rightarrow> bool" where
  "startswith s [] = True"
| "startswith [] (p # ps) = False"
| "startswith (c # cs) (p # ps) = (c = p \<and> startswith cs ps)"

definition endswith :: "string \<Rightarrow> string \<Rightarrow> bool" where
  "endswith s p = startswith (rev s) (rev p)"

fun contains :: "string \<Rightarrow> string \<Rightarrow> bool" where
  "contains [] k = (k = [])"
| "contains (c # cs) k = (startswith (c # cs) k \<or> contains cs k)"

text \<open>\<open>s.split()\<close>: the maximal runs of characters that are not white space.\<close>

fun split_acc :: "string \<Rightarrow> string \<Rightarrow> string list" where
  "split_acc cur [] = (if cur = [] then [] else [cur])"
| "split_acc cur (c # cs) =
     (if is_space c then (if cur = [] then split_acc [] cs else cur # split_acc [] cs)
      else split_acc (cur @ [c]) cs)"

definition split :: "string \<Rightarrow> string list" where
  "split s = split_acc [] s"

text \<open>Methods of \<open>str\<close> called on a value that may be of another type.\<close>

fun py_strip :: "json \<Rightarrow> py_error + string" where
  "py_strip (JStr s) = Inr (strip s)"
| "py_strip _ = Inl AttributeError"

fun py_lower :: "json \<Rightarrow> py_error + string" where
  "py_lower (JStr s) = Inr (lower s)"
| "py_lower _ = Inl AttributeError"

section \<open>The bounded in-process cache (\<open>cache_service.py\<close>, class \<open>MemoryCache\<close>)\<close>

text \<open>
  A cache entry is the dict \<open>{'value': v, 'ttl': ttl, 'created_at': t}\<close>. The ttl is an
  \<open>int\<close> or \<open>None\<close>; the creation time is the event loop's clock, a number of seconds,
  taken here as a real number and passed to every operation as \<open>now\<close>.
\<close>

record 'v cache_entry =
  entry_value :: 'v
  entry_ttl :: "int option"
  created_at :: real

text \<open>
  \<open>self._cache\<close> is a dict: an association list with one pair per key, looked up with
  \<open>map_of\<close>, written with \<open>AList.update\<close> and deleted from with \<open>AList.delete\<close>, so
  that \<open>len(self._cache)\<close> is the length of the list. \<open>self._access_order\<close> is a list
  of keys, oldest first.
\<close>

record ('k, 'v) memory_cache =
  cache :: "('k \<times> 'v cache_entry) list"
  access_order :: "'k list"
  max_size :: int

definition memory_cache_init :: "int \<Rightarrow> ('k, 'v) memory_cache" where
  "memory_cache_init n = \<lparr>cache = [], access_order = [], max_size = n\<rparr>"

definition has_key :: "('k \<times> 'a) list \<Rightarrow> 'k \<Rightarrow> bool" where
  "has_key d k \<longleftrightarrow> map_of d k \<noteq> None"

text \<open>
  The test of \<open>get\<close>: \<open>cache_entry.get('ttl') and now - created_at > ttl\<close>. A ttl of
  \<open>None\<close> or \<open>0\<close> is falsy, so such an entry is never expired.
\<close>

definition expired :: "real \<Rightarrow> 'v cache_entry \<Rightarrow> bool" where
  "expired now e =
     (case entry_ttl e of
        None \<Rightarrow> False
      | Some t \<Rightarrow> t \<noteq> 0 \<and> now - created_at e > real_of_int t)"

text \<open>\<open>_remove_key\<close>: returns whether the key was there, and the new state.\<close>

definition remove_key :: "'k \<Rightarrow> ('k, 'v) memory_cache \<Rightarrow> bool \<times> ('k, 'v) memory_cache" where
  "remove_key key s =
     (if has_key (cache s) key
      then (True, s\<lparr>cache := AList.delete key (cache s),
                    access_order := (if key \<in> set (access_order s)
                                     then remove1 key (access_order s)
                                     else access_order s)\<rparr>)
      else (False, s))"

text \<open>
  An operation returns what the Python method returns, or the exception it raises, together
  with the state it leaves behind: an exception does not undo the mutations made before it.

  \<open>get\<close>: \<open>list.remove\<close> raises \<open>ValueError\<close> when the key is not in the list.
  The returned value is \<open>Some v\<close> for a hit and \<open>None\<close> for Python's \<open>None\<close>.
\<close>

definition memory_get ::
  "real \<Rightarrow> 'k \<Rightarrow> ('k, 'v) memory_cache \<Rightarrow> (py_error + 'v option) \<times> ('k, 'v) memory_cache" where
  "memory_get now key s =
     (case map_of (cache s) key of
        Some cache_entry \<Rightarrow>
          if expired now cache_entry then (Inr None, snd (remove_key key s))
          else if key \<in> set (access_order s)
          then (Inr (Some (entry_value cache_entry)),
                s\<lparr>access_order := remove1 key (access_order s) @ [key]\<rparr>)
          else (Inl ValueError, s)
      | None \<Rightarrow> (Inr None, s))"

text \<open>
  \<open>set\<close>: \<open>pop(0)\<close> on an empty list raises \<open>IndexError\<close>, \<open>del\<close> of a missing key
  raises \<open>KeyError\<close> (after the \<open>pop\<close>).
\<close>

definition store_entry ::
  "real \<Rightarrow> 'k \<Rightarrow> 'v \<Rightarrow> int option \<Rightarrow> ('k, 'v) memory_cache \<Rightarrow> ('k, 'v) memory_cache" where
  "store_entry now key v ttl s =
     s\<lparr>cache := AList.update key \<lparr>entry_value = v, entry_ttl = ttl, created_at = now\<rparr> (cache s),
       access_order := (if key \<notin> set (access_order s) then access_order s @ [key]
                        else access_order s)\<rparr>"

definition memory_set ::
  "real \<Rightarrow> 'k \<Rightarrow> 'v \<Rightarrow> int option \<Rightarrow> ('k, 'v) memory_cache
     \<Rightarrow> (py_error + bool) \<times> ('k, 'v) memory_cache" where
  "memory_set now key v ttl s =
     (if int (length (cache s)) \<ge> max_size s \<and> \<not> has_key (cache s) key
      then (case access_order s of
              [] \<Rightarrow> (Inl IndexError, s)
            | oldest_key # rest \<Rightarrow>
                if has_key (cache s) oldest_key
                then (Inr True, store_entry now key v ttl
                                  (s\<lparr>access_order := rest,
                                     cache := AList.delete oldest_key (cache s)\<rparr>))
                else (Inl KeyError, s\<lparr>access_order := rest\<rparr>))
      else (Inr True, store_entry now key v ttl s))"

definition memory_delete ::
  "'k \<Rightarrow> ('k, 'v) memory_cache \<Rightarrow> (py_error + bool) \<times> ('k, 'v) memory_cache" where
  "memory_delete key s = (Inr (fst (remove_key key s)), snd (remove_key key s))"

text \<open>
  The states a cache can be in: the empty cache of \<open>__init__\<close>, and the state that a
  \<open>get\<close>, \<open>set\<close> or \<open>delete\<close> leaves behind. The lock makes the operations atomic,
  so a run is a sequence of them.
\<close>

inductive reachable_cache :: "('k, 'v) memory_cache \<Rightarrow> bool" where
  init: "reachable_cache (memory_cache_init n)"
| get: "reachable_cache s \<Longrightarrow> reachable_cache (snd (memory_get now key s))"
| set: "reachable_cache s \<Longrightarrow> reachable_cache (snd (memory_set now key v ttl s))"
| delete: "reachable_cache s \<Longrightarrow> reachable_cache (snd (memory_delete key s))"

definition keys_of :: "('k \<times> 'a) list \<Rightarrow> 'k set" where
  "keys_of d = fst ` set d"

text \<open>
  What the two fields keep true of each other: the dict has one pair per key, the access
  order lists every key of the dict once and nothing else.
\<close>

definition cache_inv :: "('k, 'v) memory_cache \<Rightarrow> bool" where
  "cache_inv s \<longleftrightarrow>
     distinct (map fst (cache s)) \<and> distinct (access_order s) \<and>
     set (access_order s) = keys_of (cache s)"

text \<open>\<open>set\<close> followed by \<open>get\<close> of the same key, at the times \<open>now\<close> and \<open>now'\<close>.\<close>

definition set_then_get ::
  "real \<Rightarrow> real \<Rightarrow> 'k \<Rightarrow> 'v \<Rightarrow> int option \<Rightarrow> ('k, 'v) memory_cache
     \<Rightarrow> (py_error + 'v option) \<times> ('k, 'v) memory_cache" where
  "set_then_get now now' key v ttl s =
     (case memory_set now key v ttl s of
        (Inl e, s1) \<Rightarrow> (Inl e, s1)
      | (Inr _, s1) \<Rightarrow> memory_get now' key s1)"

subsection \<open>Runs of the cache, with a log of accesses\<close>

text \<open>
  To say which key is the least recently accessed one, a run of the cache is a list of
  operations applied to the empty cache, and beside the state it keeps a log: a counter of
  the operations so far and, for every key, the number of the last operation that accessed
  it. Every \<open>get\<close> and every \<open>set\<close> of a key is an access of that key, whatever the store
  holds; a \<open>delete\<close> accesses nothing. The log is not part of the program and does not look
  at its state; the program's state is the field \<open>state\<close>.
\<close>

datatype ('k, 'v) cache_op = OpGet real 'k | OpSet real 'k 'v "int option" | OpDelete 'k

fun apply_op :: "('k, 'v) cache_op \<Rightarrow> ('k, 'v) memory_cache \<Rightarrow> ('k, 'v) memory_cache" where
  "apply_op (OpGet now key) s = snd (memory_get now key s)"
| "apply_op (OpSet now key v ttl) s = snd (memory_set now key v ttl s)"
| "apply_op (OpDelete key) s = snd (memory_delete key s)"

fun accessed_key :: "('k, 'v) cache_op \<Rightarrow> 'k option" where
  "accessed_key (OpGet now key) = Some key"
| "accessed_key (OpSet now key v ttl) = Some key"
| "accessed_key (OpDelete key) = None"

record ('k, 'v) logged_cache =
  state :: "('k, 'v) memory_cache"
  last_access :: "'k \<Rightarrow> nat"
  clock :: nat

definition logged_init :: "int \<Rightarrow> ('k, 'v) logged_cache" where
  "logged_init n = \<lparr>state = memory_cache_init n, last_access = (\<lambda>k. 0), clock = 0\<rparr>"

definition logged_step :: "('k, 'v) logged_cache \<Rightarrow> ('k, 'v) cache_op \<Rightarrow> ('k, 'v) logged_cache" where
  "logged_step l op =
     \<lparr>state = apply_op op (state l),
      last_access = (case accessed_key op of
                       Some k \<Rightarrow> (last_access l)(k := Suc (clock l))
                     | None \<Rightarrow> last_access l),
      clock = Suc (clock l)\<rparr>"

definition logged_run :: "int \<Rightarrow> ('k, 'v) cache_op list \<Rightarrow> ('k, 'v) logged_cache" where
  "logged_run n ops = foldl logged_step (logged_init n) ops"

text \<open>
  An operation overwrites when it is a \<open>set\<close> of a key that the store already holds. A list
  of operations is overwrite-free from a state when none of them overwrites in the state
  it is applied to.
\<close>

fun overwrites :: "('k, 'v) cache_op \<Rightarrow> ('k, 'v) memory_cache \<Rightarrow> bool" where
  "overwrites (OpSet now key v ttl) s = has_key (cache s) key"
| "overwrites (OpGet now key) s = False"
| "overwrites (OpDelete key) s = False"

fun overwrite_free :: "('k, 'v) memory_cache \<Rightarrow> ('k, 'v) cache_op list \<Rightarrow> bool" where
  "overwrite_free s [] = True"
| "overwrite_free s (op # ops) = (\<not> overwrites op s \<and> overwrite_free (apply_op op s) ops)"

text \<open>
  The access order agrees with the log when it lists the keys from the least to the most
  recently accessed one.
\<close>

definition lru_inv :: "('k, 'v) logged_cache \<Rightarrow> bool" where
  "lru_inv l \<longleftrightarrow>
     cache_inv (state l)
     \<and> sorted_wrt (\<lambda>a b. last_access l a < last_access l b) (access_order (state l))
     \<and> (\<forall>k \<in> set (access_order (state l)). last_access l k \<le> clock l)"

text \<open>
  How one operation changes the access order: some keys are taken out, the others keep
  their relative order, and the accessed key, if any, is not among them and may go to the
  back.
\<close>

definition order_step :: "'k list \<Rightarrow> 'k option \<Rightarrow> 'k list \<Rightarrow> bool" where
  "order_step before accessed after \<longleftrightarrow>
     (\<exists>ys. set ys \<subseteq> set before
        \<and> (\<forall>P. sorted_wrt P before \<longrightarrow> sorted_wrt P ys)
        \<and> (case accessed of
              None \<Rightarrow> after = ys
            | Some k \<Rightarrow> k \<notin> set ys \<and> (after = ys @ [k] \<or> after = ys)))"

text \<open>
  Two runs at capacity 2 that differ in their third operation only: a \<open>get\<close> of the first
  key, or a \<open>set\<close> that overwrites it.
\<close>

definition two_key_log :: "(string, nat) logged_cache" where
  "two_key_log = logged_run 2 [OpSet 1 ''a'' 10 None, OpSet 2 ''b'' 20 None, OpGet 3 ''a'']"

definition overwrite_log :: "(string, nat) logged_cache" where
  "overwrite_log =
     logged_run 2 [OpSet 1 ''a'' 10 None, OpSet 2 ''b'' 20 None, OpSet 3 ''a'' 11 None]"

subsection \<open>The cache service over the in-process backend (class \<open>CacheService\<close>)\<close>

text \<open>
  \<open>CacheService\<close> holds a backend and the configured default ttl (\<open>ttl: int = 3600\<close>).
  Only the in-process backend is modelled; the Redis backend is a network client.
  \<open>ttl or self.ttl\<close> is the given ttl when it is truthy and the default otherwise.
  Every method catches any exception of the backend and returns \<open>None\<close> or \<open>False\<close>.
\<close>

record ('k, 'v) cache_service =
  backend :: "('k, 'v) memory_cache"
  service_ttl :: int

definition ttl_or :: "int option \<Rightarrow> int \<Rightarrow> int option" where
  "ttl_or ttl dflt = (case ttl of None \<Rightarrow> Some dflt | Some t \<Rightarrow> if t \<noteq> 0 then Some t else Some dflt)"

definition service_get ::
  "real \<Rightarrow> 'k \<Rightarrow> ('k, 'v) cache_service \<Rightarrow> 'v option \<times> ('k, 'v) cache_service" where
  "service_get now key svc =
     (case memory_get now key (backend svc) of
        (Inr result, b) \<Rightarrow> (result, svc\<lparr>backend := b\<rparr>)
      | (Inl e, b) \<Rightarrow> (None, svc\<lparr>backend := b\<rparr>))"

definition service_set ::
  "real \<Rightarrow> 'k \<Rightarrow> 'v \<Rightarrow> int option \<Rightarrow> ('k, 'v) cache_service \<Rightarrow> bool \<times> ('k, 'v) cache_service" where
  "service_set now key v ttl svc =
     (case memory_set now key v (ttl_or ttl (service_ttl svc)) (backend svc) of
        (Inr result, b) \<Rightarrow> (result, svc\<lparr>backend := b\<rparr>)
      | (Inl e, b) \<Rightarrow> (False, svc\<lparr>backend := b\<rparr>))"

definition service_init :: "int \<Rightarrow> ('k, 'v) cache_service" where
  "service_init ttl = \<lparr>backend = memory_cache_init 1000, service_ttl = ttl\<rparr>"

text \<open>
  A run used as an example below: a cache of capacity 2, \<open>set('a', 10)\<close>, \<open>set('b', 20)\<close>,
  then \<open>get('a')\<close>.
\<close>

definition two_key_cache :: "(string, nat) memory_cache" where
  "two_key_cache =
     snd (memory_get 3 ''a''
       (snd (memory_set 2 ''b'' 20 None
         (snd (memory_set 1 ''a'' 10 None (memory_cache_init 2))))))"

section \<open>The confidence scorer (\<open>validation_service.py\<close>, class \<open>ConfidenceScorer\<close>)\<close>

text \<open>
  The pattern \<open>if d.get(k): x = d[k].strip()\<close> of the three scoring methods: \<open>None\<close> when
  the field is missing or falsy, the stripped string otherwise, \<open>AttributeError\<close> when the
  value is truthy and not a string.
\<close>

definition stripped_field :: "(string \<times> json) list \<Rightarrow> string \<Rightarrow> py_error + string option" where
  "stripped_field d k =
     (if truthy (dict_get d k) then bind_sum (py_strip (dict_get d k)) (\<lambda>s. Inr (Some s))
      else Inr None)"

subsection \<open>\<open>datetime.strptime(s, '%Y-%m-%d')\<close>\<close>

text \<open>
  The library call is modelled after CPython's \<open>_strptime\<close>: the format becomes the
  regular expression \<open>(\d\d\d\d)-(1[0-2]|0[1-9]|[1-9])-(3[01]|[12]\d|0[1-9]|[1-9]| [1-9])\<close>,
  which must match at the start of the string and consume all of it, and the three numbers
  must be a date of the calendar with a year of at least 1. Anything else raises
  \<open>ValueError\<close>; an argument that is not a string raises \<open>TypeError\<close>. In each group the
  first alternative that matches is the one taken: a later alternative would leave a digit
  where the following \<open>-\<close> or the end of the string is required.
\<close>

definition is_digit :: "char \<Rightarrow> bool" where
  "is_digit c \<longleftrightarrow> c \<in> set ''0123456789''"

definition digit_val :: "char \<Rightarrow> nat" where
  "digit_val c = length (takeWhile (\<lambda>d. d \<noteq> c) ''0123456789'')"

definition is_leap :: "nat \<Rightarrow> bool" where
  "is_leap y \<longleftrightarrow> y mod 4 = 0 \<and> (y mod 100 \<noteq> 0 \<or> y mod 400 = 0)"

definition days_in_month :: "nat \<Rightarrow> nat \<Rightarrow> nat" where
  "days_in_month y m =
     (if m = 2 then (if is_leap y then 29 else 28)
      else if m \<in> {4, 6, 9, 11} then 30 else 31)"

fun match_year :: "string \<Rightarrow> (nat \<times> string) option" where
  "match_year (a # b # c # d # rest) =
     (if is_digit a \<and> is_digit b \<and> is_digit c \<and> is_digit d
      then Some (1000 * digit_val a + 100 * digit_val b + 10 * digit_val c + digit_val d, rest)
      else None)"
| "match_year _ = None"

fun match_month :: "string \<Rightarrow> (nat \<times> string) option" where
  "match_month [] = None"
| "match_month [a] = (if is_digit a \<and> a \<noteq> CHR ''0'' then Some (digit_val a, []) else None)"
| "match_month (a # b # rest) =
     (if a = CHR ''1'' \<and> b \<in> set ''012'' then Some (10 + digit_val b, rest)
      else if a = CHR ''0'' \<and> is_digit b \<and> b \<noteq> CHR ''0'' then Some (digit_val b, rest)
      else if is_digit a \<and> a \<noteq> CHR ''0'' then Some (digit_val a, b # rest)
      else None)"

fun match_day :: "string \<Rightarrow> (nat \<times> string) option" where
  "match_day [] = None"
| "match_day [a] = (if is_digit a \<and> a \<noteq> CHR ''0'' then Some (digit_val a, []) else None)"
| "match_day (a # b # rest) =
     (if a = CHR ''3'' \<and> b \<in> set ''01'' then Some (30 + digit_val b, rest)
      else if a \<in> set ''12'' \<and> is_digit b then Some (10 * digit_val a + digit_val b, rest)
      else if a = CHR ''0'' \<and> is_digit b \<and> b \<noteq> CHR ''0'' then Some (digit_val b, rest)
      else if is_digit a \<and> a \<noteq> CHR ''0'' then Some (digit_val a, b # rest)
      else if a = CHR '' '' \<and> is_digit b \<and> b \<noteq> CHR ''0'' then Some (digit_val b, rest)
      else None)"

definition match_dash :: "string \<Rightarrow> string option" where
  "match_dash s = (case s of c # rest \<Rightarrow> if c = CHR ''-'' then Some rest else None | [] \<Rightarrow> None)"

definition valid_ymd :: "string \<Rightarrow> bool" where
  "valid_ymd s =
     (case match_year s of None \<Rightarrow> False | Some (y, s1) \<Rightarrow>
      case match_dash s1 of None \<Rightarrow> False | Some s2 \<Rightarrow>
      case match_month s2 of None \<Rightarrow> False | Some (m, s3) \<Rightarrow>
      case match_dash s3 of None \<Rightarrow> False | Some s4 \<Rightarrow>
      case match_day s4 of None \<Rightarrow> False | Some (d, s5) \<Rightarrow>
        s5 = [] \<and> 1 \<le> y \<and> d \<le> days_in_month y m)"

text \<open>Whether \<open>strptime\<close> returns (\<open>True\<close>) or raises \<open>ValueError\<close> (\<open>False\<close>).\<close>

fun strptime_ymd :: "json \<Rightarrow> py_error + bool" where
  "strptime_ymd (JStr s) = Inr (valid_ymd s)"
| "strptime_ymd _ = Inl TypeError"

subsection \<open>\<open>score_event\<close>\<close>

definition event_keywords :: "string list" where
  "event_keywords = [''conference'', ''meetup'', ''workshop'', ''summit'', ''hackathon'']"

definition has_keyword :: "string \<Rightarrow> bool" where
  "has_keyword title = list_ex (\<lambda>keyword. contains (lower title) keyword) event_keywords"

definition bonus_fields :: "string list" where
  "bonus_fields = [''time'', ''event_type'', ''registration_url'', ''price'']"

text \<open>
  Each part of the rubric gives what it adds to \<open>score\<close>; the title also gives what it
  adds to \<open>max_score\<close> beyond the fixed 30.
\<close>

definition title_score :: "string option \<Rightarrow> rat \<times> rat" where
  "title_score title =
     (case title of
        None \<Rightarrow> (0, 0)
      | Some t \<Rightarrow> if length t > 5 then (if has_keyword t then (35, 5) else (30, 0)) else (0, 0))"

definition date_score :: "(string \<times> json) list \<Rightarrow> py_error + rat" where
  "date_score event =
     (if truthy (dict_get event ''date'')
      then bind_sum (strptime_ymd (dict_get event ''date'')) (\<lambda>ok. Inr (if ok then 25 else 10))
      else Inr 0)"

definition location_score :: "string option \<Rightarrow> rat" where
  "location_score location =
     (case location of None \<Rightarrow> 0 | Some l \<Rightarrow> if length l > 3 then 20 else 0)"

definition description_score :: "string option \<Rightarrow> rat" where
  "description_score description =
     (case description of
        None \<Rightarrow> 0
      | Some desc \<Rightarrow> if length desc > 50 then 15 else if length desc > 10 then 8 else 0)"

definition present_fields :: "(string \<times> json) list \<Rightarrow> rat" where
  "present_fields event =
     of_nat (length (filter (\<lambda>field. truthy (dict_get event field)) bonus_fields))"

text \<open>
  The method calls \<open>event.get\<close> first, which raises \<open>AttributeError\<close> on anything but a
  dict. The parts are evaluated in the order of the source, so the first exception is the
  one raised.
\<close>

fun score_event :: "json \<Rightarrow> py_error + rat" where
  "score_event (JObj event) =
     bind_sum (stripped_field event ''title'') (\<lambda>title.
     bind_sum (date_score event) (\<lambda>date_points.
     bind_sum (stripped_field event ''location'') (\<lambda>location.
     bind_sum (stripped_field event ''description'') (\<lambda>description.
       let score = fst (title_score title) + date_points + location_score location
                   + description_score description
                   + (present_fields event / of_nat (length bonus_fields)) * 10;
           max_score = 30 + snd (title_score title) + 25 + 20 + 15 + 10
       in Inr (if max_score > 0 then min (score / max_score) 1 else 0)))))"
| "score_event _ = Inl AttributeError"

subsection \<open>\<open>score_speaker\<close> and \<open>score_company\<close>\<close>

text \<open>
  \<open>self.url_pattern.match(url)\<close> is a call into the regular expression engine. What the
  pattern accepts is a parameter \<open>url_pattern\<close> of the model; a \<open>url\<close> that is not a
  string raises \<open>TypeError\<close>.
\<close>

fun pattern_match :: "(string \<Rightarrow> bool) \<Rightarrow> json \<Rightarrow> py_error + bool" where
  "pattern_match url_pattern (JStr url) = Inr (url_pattern url)"
| "pattern_match url_pattern _ = Inl TypeError"

definition link_score ::
  "(string \<Rightarrow> bool) \<Rightarrow> (string \<times> json) list \<Rightarrow> string \<Rightarrow> py_error + rat" where
  "link_score url_pattern speaker link_field =
     (if truthy (dict_get speaker link_field)
      then bind_sum (pattern_match url_pattern (dict_get speaker link_field))
             (\<lambda>m. Inr (if m then 333 / 100 else 0))
      else Inr 0)"

definition name_score :: "string option \<Rightarrow> rat \<times> rat" where
  "name_score name =
     (case name of
        None \<Rightarrow> (0, 0)
      | Some n \<Rightarrow> if length n > 3 then (if length (split n) \<ge> 2 then (40, 5) else (35, 0))
                  else (0, 0))"

definition length_score :: "string option \<Rightarrow> nat \<Rightarrow> rat \<Rightarrow> rat" where
  "length_score field n points =
     (case field of None \<Rightarrow> 0 | Some x \<Rightarrow> if length x > n then points else 0)"

definition bio_score :: "string option \<Rightarrow> rat" where
  "bio_score bio =
     (case bio of
        None \<Rightarrow> 0
      | Some b \<Rightarrow> if length b > 20 then 10 else if length b > 5 then 5 else 0)"

fun score_speaker :: "(string \<Rightarrow> bool) \<Rightarrow> json \<Rightarrow> py_error + rat" where
  "score_speaker url_pattern (JObj speaker) =
     bind_sum (stripped_field speaker ''name'') (\<lambda>name.
     bind_sum (stripped_field speaker ''title'') (\<lambda>title.
     bind_sum (stripped_field speaker ''company'') (\<lambda>company.
     bind_sum (stripped_field speaker ''bio'') (\<lambda>bio.
     bind_sum (link_score url_pattern speaker ''linkedin_url'') (\<lambda>l1.
     bind_sum (link_score url_pattern speaker ''twitter_url'') (\<lambda>l2.
     bind_sum (link_score url_pattern speaker ''website_url'') (\<lambda>l3.
       let social_score = l1 + l2 + l3;
           score = fst (name_score name) + length_score title 3 25 + length_score company 2 20
                   + bio_score bio + min social_score 10;
           max_score = 100 + snd (name_score name)
       in Inr (min (score / max_score) 1))))))))"
| "score_speaker url_pattern _ = Inl AttributeError"

definition website_score :: "(string \<Rightarrow> bool) \<Rightarrow> (string \<times> json) list \<Rightarrow> py_error + rat" where
  "website_score url_pattern company =
     (if truthy (dict_get company ''website_url'')
      then bind_sum (pattern_match url_pattern (dict_get company ''website_url''))
             (\<lambda>m. Inr (if m then 25 else 0))
      else Inr 0)"

definition relationship_score :: "(string \<times> json) list \<Rightarrow> py_error + rat" where
  "relationship_score company =
     (if truthy (dict_get company ''relationship_type'')
      then bind_sum (py_lower (dict_get company ''relationship_type''))
             (\<lambda>rel_type. Inr (if rel_type \<in> set [''sponsor'', ''host'', ''partner'', ''venue'']
                                then 15 else 0))
      else Inr 0)"

fun score_company :: "(string \<Rightarrow> bool) \<Rightarrow> json \<Rightarrow> py_error + rat" where
  "score_company url_pattern (JObj company) =
     bind_sum (stripped_field company ''name'') (\<lambda>name.
     bind_sum (website_score url_pattern company) (\<lambda>website.
     bind_sum (relationship_score company) (\<lambda>relationship.
       let desc_score = (if truthy (dict_get company ''description'') then 10 else 0)
                        + (if truthy (dict_get company ''industry'') then 10 else 0);
           score = length_score name 2 40 + website + desc_score + relationship;
           max_score = 100
       in Inr (min (score / max_score) 1))))"
| "score_company url_pattern _ = Inl AttributeError"

subsection \<open>\<open>validate_and_filter\<close>\<close>

text \<open>
  One of the three loops: \<open>for entity in ...: confidence = score(entity); if confidence >=
  threshold: entity['confidence_score'] = confidence; kept.append(entity)\<close>.
\<close>

fun filter_entities ::
  "(json \<Rightarrow> py_error + rat) \<Rightarrow> rat \<Rightarrow> json list \<Rightarrow> json list \<Rightarrow> py_error + json list" where
  "filter_entities score threshold [] kept = Inr kept"
| "filter_entities score threshold (entity # rest) kept =
     bind_sum (score entity) (\<lambda>confidence.
       if confidence \<ge> threshold
       then bind_sum (dict_set entity ''confidence_score'' (JNum confidence))
              (\<lambda>entity'. filter_entities score threshold rest (kept @ [entity']))
       else filter_entities score threshold rest kept)"

fun validate_and_filter :: "(string \<Rightarrow> bool) \<Rightarrow> json \<Rightarrow> rat \<Rightarrow> py_error + json" where
  "validate_and_filter url_pattern (JObj extracted_data) confidence_threshold =
     bind_sum (py_iter (dict_get_default extracted_data ''events'' (JArr []))) (\<lambda>events.
     bind_sum (filter_entities score_event confidence_threshold events []) (\<lambda>events'.
     bind_sum (py_iter (dict_get_default extracted_data ''speakers'' (JArr []))) (\<lambda>speakers.
     bind_sum (filter_entities (score_speaker url_pattern) confidence_threshold speakers [])
       (\<lambda>speakers'.
     bind_sum (py_iter (dict_get_default extracted_data ''companies'' (JArr []))) (\<lambda>companies.
     bind_sum (filter_entities (score_company url_pattern) confidence_threshold companies [])
       (\<lambda>companies'.
       Inr (JObj [(''events'', JArr events'), (''speakers'', JArr speakers'),
                  (''companies'', JArr companies'),
                  (''topics'', dict_get_default extracted_data ''topics'' (JArr [])),
                  (''metadata'', dict_get_default extracted_data ''metadata'' (JObj []))])))))))"
| "validate_and_filter url_pattern _ confidence_threshold = Inl AttributeError"

text \<open>
  For stating what the filter returns: an entity is retained when its score is at least the
  threshold, and a retained entity comes back with its score stored under
  \<open>confidence_score\<close>.
\<close>

definition retained :: "(json \<Rightarrow> py_error + rat) \<Rightarrow> rat \<Rightarrow> json \<Rightarrow> bool" where
  "retained score threshold entity =
     (case score entity of Inr c \<Rightarrow> threshold \<le> c | Inl e \<Rightarrow> False)"

definition attach_score :: "(json \<Rightarrow> py_error + rat) \<Rightarrow> json \<Rightarrow> json" where
  "attach_score score entity =
     (case (entity, score entity) of
        (JObj d, Inr c) \<Rightarrow> JObj (AList.update ''confidence_score'' (JNum c) d)
      | _ \<Rightarrow> entity)"

text \<open>The first example event of the specification, with any description.\<close>

definition summit_event :: "string \<Rightarrow> json" where
  "summit_event description =
     JObj [(''title'', JStr ''AI Summit 2024''), (''date'', JStr ''2024-06-15''),
           (''location'', JStr ''SF''), (''description'', JStr description)]"

section \<open>The LLM client (\<open>openai_service.py\<close>)\<close>

text \<open>
  The provider is outside the program: a call to \<open>chat.completions.create\<close> either
  returns a response or raises one of the exceptions of the \<open>openai\<close> package, with a
  message. The first four are the ones named in \<open>get_openai_retry_config\<close>; the last two
  stand for the others.
\<close>

datatype provider_failure =
  RateLimitError | APITimeoutError | APIConnectionError | InternalServerError
| AuthenticationError | BadRequestError

text \<open>
  The exceptions that can leave the body of \<open>OpenAIService.extract_content\<close>: one of the
  provider, or the service's own \<open>OpenAIServiceError\<close>, each with its message.
\<close>

datatype service_exn =
  ProviderRaised provider_failure string
| OpenAIServiceError string

text \<open>The dict that \<open>extract_content\<close> builds from a response.\<close>

record completion =
  completion_content :: string
  completion_model :: string
  prompt_tokens :: nat
  completion_tokens :: nat
  total_tokens :: nat

subsection \<open>The \<open>tenacity\<close> decorator\<close>

text \<open>
  \<open>@retry(retry=retry_if_exception_type((RateLimitError, APITimeoutError,
  APIConnectionError, InternalServerError)), stop=stop_after_attempt(3),
  wait=wait_exponential(multiplier=1, min=4, max=10), reraise=True)\<close>, modelled after the
  documentation of the library: the wrapped function is called; when it raises an exception
  that the predicate rejects, or the attempt was the third, the exception is raised to the
  caller; otherwise the decorator sleeps and calls again. \<open>OpenAIServiceError\<close> derives
  from \<open>Exception\<close> through \<open>BAMLServiceError\<close> and is an instance of none of the four
  classes. The wait before attempt \<open>n + 1\<close> is \<open>max(4, min(2 ** (n - 1), 10))\<close> seconds.
  The result is what the caller sees, the number of calls made and the waits slept.
\<close>

fun retry_if_exception_type :: "service_exn \<Rightarrow> bool" where
  "retry_if_exception_type (ProviderRaised f msg) =
     (f \<in> {RateLimitError, APITimeoutError, APIConnectionError, InternalServerError})"
| "retry_if_exception_type (OpenAIServiceError msg) = False"

definition stop_after_attempt :: nat where
  "stop_after_attempt = 3"

definition wait_exponential :: "nat \<Rightarrow> nat" where
  "wait_exponential attempt_number = max 4 (min (1 * 2 ^ (attempt_number - 1)) 10)"

function retrying ::
  "(nat \<Rightarrow> service_exn + 'a) \<Rightarrow> nat \<Rightarrow> nat list \<Rightarrow> (service_exn + 'a) \<times> nat \<times> nat list" where
  "retrying fn attempt_number waits =
     (case fn attempt_number of
        Inr result \<Rightarrow> (Inr result, attempt_number, waits)
      | Inl e \<Rightarrow>
          if \<not> retry_if_exception_type e then (Inl e, attempt_number, waits)
          else if attempt_number \<ge> stop_after_attempt then (Inl e, attempt_number, waits)
          else retrying fn (Suc attempt_number) (waits @ [wait_exponential attempt_number]))"
  by pat_completeness auto
termination
  by (relation "measure (\<lambda>(fn, attempt_number, waits). stop_after_attempt - attempt_number)") auto

declare retrying.simps [simp del]

subsection \<open>\<open>OpenAIService.extract_content\<close>\<close>

text \<open>
  The body of the method is one \<open>try\<close> block around the provider call, with
  \<open>except Exception as e: raise OpenAIServiceError(f"Content extraction failed: {str(e)}")\<close>.
  The decorator is applied to this body; the provider's outcome at the \<open>n\<close>-th call is
  \<open>provider n\<close>.
\<close>

definition extract_content_body ::
  "(provider_failure \<times> string) + completion \<Rightarrow> service_exn + completion" where
  "extract_content_body outcome =
     (case outcome of
        Inr response \<Rightarrow> Inr response
      | Inl e \<Rightarrow> Inl (OpenAIServiceError (''Content extraction failed: '' @ snd e)))"

definition extract_content ::
  "(nat \<Rightarrow> (provider_failure \<times> string) + completion)
     \<Rightarrow> (service_exn + completion) \<times> nat \<times> nat list" where
  "extract_content provider = retrying (\<lambda>n. extract_content_body (provider n)) 1 []"

text \<open>
  A provider that answers the first call with a rate-limit error and every later call with
  a response.
\<close>

definition flaky_provider :: "nat \<Rightarrow> (provider_failure \<times> string) + completion" where
  "flaky_provider n =
     (if n = 1 then Inl (RateLimitError, ''Error code: 429'')
      else Inr \<lparr>completion_content = ''{}'', completion_model = ''gpt-4'', prompt_tokens = 10,
                completion_tokens = 1, total_tokens = 11\<rparr>)"

text \<open>The same decorator around the bare provider call, for comparison.\<close>

definition bare_call ::
  "(nat \<Rightarrow> (provider_failure \<times> string) + completion) \<Rightarrow> nat \<Rightarrow> service_exn + completion" where
  "bare_call provider n =
     (case provider n of Inl e \<Rightarrow> Inl (ProviderRaised (fst e) (snd e)) | Inr r \<Rightarrow> Inr r)"

section \<open>The response parser (\<open>extraction_service.py\<close>)\<close>

subsection \<open>\<open>fix_json_response\<close>\<close>

text \<open>
  \<open>re.sub(r'```json\s*', '', content)\<close>: every occurrence of the opening fence, with the
  white space after it, is removed; the search goes on after the removed text.
\<close>

function remove_json_fences :: "string \<Rightarrow> string" where
  "remove_json_fences [] = []"
| "remove_json_fences (c # cs) =
     (if startswith (c # cs) ''```json''
      then remove_json_fences (dropWhile is_space (drop 7 (c # cs)))
      else c # remove_json_fences cs)"
  by pat_completeness auto
termination
proof (relation "measure length")
  show "wf (measure length)" by simp
next
  fix c :: char and cs :: string
  have "length (dropWhile is_space (drop 7 (c # cs))) \<le> length (drop 7 (c # cs))"
    by (rule length_dropWhile_le)
  then show "(dropWhile is_space (drop 7 (c # cs)), c # cs) \<in> measure length"
    by simp
next
  fix c :: char and cs :: string
  show "(cs, c # cs) \<in> measure length" by simp
qed

text \<open>
  \<open>re.sub(r'```\s*$', '', content)\<close>: the pattern matches at the first place where three
  backquotes are followed by nothing but white space up to the end of the string, and that
  whole tail is removed.
\<close>

fun remove_closing_fence :: "string \<Rightarrow> string" where
  "remove_closing_fence [] = []"
| "remove_closing_fence (c # cs) =
     (if startswith (c # cs) ''```'' \<and> list_all is_space (drop 3 (c # cs)) then []
      else c # remove_closing_fence cs)"

text \<open>
  \<open>re.sub(r',(\s*[}\]])', r'\1', content)\<close>: a comma followed by optional white space and
  a closing brace or bracket is dropped, the white space and the bracket stay, and the
  search goes on after the bracket.
\<close>

function remove_trailing_commas :: "string \<Rightarrow> string" where
  "remove_trailing_commas [] = []"
| "remove_trailing_commas (c # cs) =
     (if c = CHR '','' then
        (case dropWhile is_space cs of
           b # rest \<Rightarrow>
             if b = CHR ''}'' \<or> b = CHR '']''
             then takeWhile is_space cs @ [b] @ remove_trailing_commas rest
             else c # remove_trailing_commas cs
         | [] \<Rightarrow> c # remove_trailing_commas cs)
      else c # remove_trailing_commas cs)"
  by pat_completeness auto
termination
proof (relation "measure length")
  show "wf (measure length)" by simp
next
  fix c :: char and cs b rest
  assume "dropWhile is_space cs = b # rest"
  then have "length rest < length (dropWhile is_space cs)" by simp
  also have "\<dots> \<le> length cs" by (rule length_dropWhile_le)
  finally show "(rest, c # cs) \<in> measure length" by simp
qed simp_all

definition fix_json_response :: "string \<Rightarrow> string" where
  "fix_json_response content =
     (let content = remove_json_fences content;
          content = remove_closing_fence content;
          content = remove_trailing_commas content;
          content = strip content;
          content = (if \<not> startswith content ''{'' then ''{'' @ content else content);
          content = (if \<not> endswith content ''}'' then content @ ''}'' else content)
      in content)"

subsection \<open>\<open>parse_openai_response\<close>\<close>

text \<open>
  \<open>json.loads\<close> is a parameter \<open>loads\<close> of the model: \<open>None\<close> stands for
  \<open>JSONDecodeError\<close>. The loop over \<open>required_keys\<close> runs inside the first \<open>try\<close>,
  whose \<open>except\<close> clause catches \<open>JSONDecodeError\<close> only: \<open>key not in data\<close> raises
  \<open>TypeError\<close> on a number, a boolean or \<open>None\<close>, and the assignment raises it on a list
  or a string. The second \<open>json.loads\<close> sits under a bare \<open>except\<close>.
\<close>

definition required_keys :: "string list" where
  "required_keys = [''events'', ''speakers'', ''companies'', ''topics'', ''metadata'']"

fun py_in :: "string \<Rightarrow> json \<Rightarrow> py_error + bool" where
  "py_in key (JObj d) = Inr (map_of d key \<noteq> None)"
| "py_in key (JArr xs) = Inr (JStr key \<in> set xs)"
| "py_in key (JStr s) = Inr (contains s key)"
| "py_in key _ = Inl TypeError"

fun fill_defaults :: "string list \<Rightarrow> json \<Rightarrow> py_error + json" where
  "fill_defaults [] data = Inr data"
| "fill_defaults (key # keys) data =
     bind_sum (py_in key data) (\<lambda>present.
       if \<not> present
       then bind_sum (dict_set data key (if key \<noteq> ''metadata'' then JArr [] else JObj []))
              (\<lambda>data'. fill_defaults keys data')
       else fill_defaults keys data)"

definition failed_dataset :: json where
  "failed_dataset =
     JObj [(''events'', JArr []), (''speakers'', JArr []), (''companies'', JArr []),
           (''topics'', JArr []), (''metadata'', JObj [(''extraction_quality'', JStr ''failed'')])]"

definition parse_openai_response :: "(string \<Rightarrow> json option) \<Rightarrow> string \<Rightarrow> py_error + json" where
  "parse_openai_response loads response_content =
     (case loads response_content of
        Some data \<Rightarrow> fill_defaults required_keys data
      | None \<Rightarrow>
          (case loads (fix_json_response response_content) of
             Some data \<Rightarrow> Inr data
           | None \<Rightarrow> Inr failed_dataset))"

text \<open>Whether a returned dataset is a dict that has all five top-level fields.\<close>

definition has_required_keys :: "json \<Rightarrow> bool" where
  "has_required_keys data =
     (case data of JObj d \<Rightarrow> list_all (\<lambda>key. map_of d key \<noteq> None) required_keys | _ \<Rightarrow> False)"

subsection \<open>A decoder for \<open>json.loads\<close>\<close>

text \<open>
  To run the parser on a concrete text, \<open>json.loads\<close> is modelled after the pure-Python
  decoder of the standard library (\<open>json.decoder\<close> and \<open>json.scanner\<close>): white space is
  blank, tab, line feed and carriage return; a string ends at the first unescaped quote and
  may not hold a control character; a number is \<open>-?(0|[1-9]\d*)(\.\d+)?([eE][-+]?\d+)?\<close>;
  an object keeps, for a repeated key, its first position and its last value; text after
  the value is an error. Two things are left out, and make this decoder answer \<open>None\<close>
  where the library would not: a \<open>\u\<close> escape for a code point above 255, and the
  constants \<open>NaN\<close>, \<open>Infinity\<close> and \<open>-Infinity\<close>. Numbers are exact rationals. The
  first argument of the three scanning functions bounds the nesting depth.
\<close>

definition json_ws :: "char list" where
  "json_ws = [CHR 0x20, CHR 0x09, CHR 0x0A, CHR 0x0D]"

definition skip_ws :: "string \<Rightarrow> string" where
  "skip_ws s = dropWhile (\<lambda>c. c \<in> set json_ws) s"

definition hex_val :: "char \<Rightarrow> nat option" where
  "hex_val c =
     map_of (zip ''0123456789abcdefABCDEF''
                 [0, 1, 2, 3, 4, 5, 6, 7, 8, 9, 10, 11, 12, 13, 14, 15, 10, 11, 12, 13, 14, 15]) c"

definition simple_escape :: "char \<Rightarrow> char option" where
  "simple_escape c =
     map_of (zip [CHR 0x22, CHR 0x5C, CHR ''/'', CHR ''b'', CHR ''f'', CHR ''n'', CHR ''r'', CHR ''t'']
                 [CHR 0x22, CHR 0x5C, CHR ''/'', CHR 0x08, CHR 0x0C, CHR 0x0A, CHR 0x0D, CHR 0x09]) c"

definition control_chars :: "char list" where
  "control_chars =
     [CHR 0x00, CHR 0x01, CHR 0x02, CHR 0x03, CHR 0x04, CHR 0x05, CHR 0x06, CHR 0x07,
      CHR 0x08, CHR 0x09, CHR 0x0A, CHR 0x0B, CHR 0x0C, CHR 0x0D, CHR 0x0E, CHR 0x0F,
      CHR 0x10, CHR 0x11, CHR 0x12, CHR 0x13, CHR 0x14, CHR 0x15, CHR 0x16, CHR 0x17,
      CHR 0x18, CHR 0x19, CHR 0x1A, CHR 0x1B, CHR 0x1C, CHR 0x1D, CHR 0x1E, CHR 0x1F]"

fun scan_string :: "string \<Rightarrow> string \<Rightarrow> (string \<times> string) option" where
  "scan_string acc [] = None"
| "scan_string acc (c # cs) =
     (if c = CHR 0x22 then Some (acc, cs)
      else if c = CHR 0x5C then
        (case cs of
           [] \<Rightarrow> None
         | e # rest \<Rightarrow>
             if e = CHR ''u'' then
               (case rest of
                  a # b # x # y # rest' \<Rightarrow>
                    (case (hex_val a, hex_val b, hex_val x, hex_val y) of
                       (Some 0, Some 0, Some h, Some l) \<Rightarrow>
                         scan_string (acc @ [char_of (16 * h + l)]) rest'
                     | _ \<Rightarrow> None)
                | _ \<Rightarrow> None)
             else (case simple_escape e of
                     Some ch \<Rightarrow> scan_string (acc @ [ch]) rest
                   | None \<Rightarrow> None))
      else if c \<in> set control_chars then None
      else scan_string (acc @ [c]) cs)"

definition digits_val :: "string \<Rightarrow> nat" where
  "digits_val ds = foldl (\<lambda>n d. 10 * n + digit_val d) 0 ds"

definition scan_int :: "string \<Rightarrow> (string \<times> string) option" where
  "scan_int s =
     (case s of
        [] \<Rightarrow> None
      | c # cs \<Rightarrow>
          if c = CHR ''0'' then Some ([c], cs)
          else if is_digit c then Some (takeWhile is_digit s, dropWhile is_digit s)
          else None)"

definition scan_frac :: "string \<Rightarrow> string \<times> string" where
  "scan_frac s =
     (case s of
        c # d # cs \<Rightarrow>
          if c = CHR ''.'' \<and> is_digit d
          then (takeWhile is_digit (d # cs), dropWhile is_digit (d # cs))
          else ([], s)
      | _ \<Rightarrow> ([], s))"

definition scan_exp :: "string \<Rightarrow> int \<times> string" where
  "scan_exp s =
     (case s of
        e # cs \<Rightarrow>
          if e = CHR ''e'' \<or> e = CHR ''E'' then
            (case cs of
               [] \<Rightarrow> (0, s)
             | sg # ds \<Rightarrow>
                 if is_digit sg
                 then (int (digits_val (takeWhile is_digit cs)), dropWhile is_digit cs)
                 else if (sg = CHR ''+'' \<or> sg = CHR ''-'') \<and> ds \<noteq> [] \<and> is_digit (hd ds)
                 then ((if sg = CHR ''-'' then - 1 else 1)
                          * int (digits_val (takeWhile is_digit ds)),
                       dropWhile is_digit ds)
                 else (0, s))
          else (0, s)
      | [] \<Rightarrow> (0, s))"

definition scan_number :: "string \<Rightarrow> (rat \<times> string) option" where
  "scan_number s =
     (let (neg, s1) = (case s of c # cs \<Rightarrow> if c = CHR ''-'' then (True, cs) else (False, s)
                       | [] \<Rightarrow> (False, s))
      in case scan_int s1 of
           None \<Rightarrow> None
         | Some (ip, s2) \<Rightarrow>
             let (fp, s3) = scan_frac s2;
                 (ex, s4) = scan_exp s3;
                 mant = of_nat (digits_val (ip @ fp)) / 10 ^ length fp;
                 v = (if ex \<ge> 0 then mant * 10 ^ nat ex else mant / 10 ^ nat (- ex))
             in Some (if neg then - v else v, s4))"

fun dict_of_pairs :: "(string \<times> json) list \<Rightarrow> (string \<times> json) list \<Rightarrow> (string \<times> json) list" where
  "dict_of_pairs d [] = d"
| "dict_of_pairs d ((k, v) # pairs) = dict_of_pairs (AList.update k v d) pairs"

fun scan_value :: "nat \<Rightarrow> string \<Rightarrow> (json \<times> string) option"
  and scan_array :: "nat \<Rightarrow> json list \<Rightarrow> string \<Rightarrow> (json \<times> string) option"
  and scan_object :: "nat \<Rightarrow> (string \<times> json) list \<Rightarrow> string \<Rightarrow> (json \<times> string) option" where
  "scan_value 0 s = None"
| "scan_value (Suc n) s =
     (case s of
        [] \<Rightarrow> None
      | c # cs \<Rightarrow>
          if c = CHR 0x22 then
            (case scan_string [] cs of Some (str, rest) \<Rightarrow> Some (JStr str, rest) | None \<Rightarrow> None)
          else if c = CHR ''{'' then
            (case skip_ws cs of
               d # ds \<Rightarrow> if d = CHR ''}'' then Some (JObj [], ds) else scan_object n [] (d # ds)
             | [] \<Rightarrow> None)
          else if c = CHR ''['' then
            (case skip_ws cs of
               d # ds \<Rightarrow> if d = CHR '']'' then Some (JArr [], ds) else scan_array n [] (d # ds)
             | [] \<Rightarrow> None)
          else if startswith s ''null'' then Some (JNull, drop 4 s)
          else if startswith s ''true'' then Some (JBool True, drop 4 s)
          else if startswith s ''false'' then Some (JBool False, drop 5 s)
          else (case scan_number s of Some (x, rest) \<Rightarrow> Some (JNum x, rest) | None \<Rightarrow> None))"
| "scan_array 0 values s = None"
| "scan_array (Suc n) values s =
     (case scan_value n s of
        None \<Rightarrow> None
      | Some (v, rest) \<Rightarrow>
          (case skip_ws rest of
             c # cs \<Rightarrow>
               if c = CHR '']'' then Some (JArr (values @ [v]), cs)
               else if c = CHR '','' then scan_array n (values @ [v]) (skip_ws cs)
               else None
           | [] \<Rightarrow> None))"
| "scan_object 0 pairs s = None"
| "scan_object (Suc n) pairs s =
     (case s of
        [] \<Rightarrow> None
      | q # s1 \<Rightarrow>
          if q \<noteq> CHR 0x22 then None
          else (case scan_string [] s1 of
                  None \<Rightarrow> None
                | Some (key, s2) \<Rightarrow>
                    (case skip_ws s2 of
                       [] \<Rightarrow> None
                     | colon # s3 \<Rightarrow>
                         if colon \<noteq> CHR '':'' then None
                         else (case scan_value n (skip_ws s3) of
                                 None \<Rightarrow> None
                               | Some (v, s4) \<Rightarrow>
                                   (case skip_ws s4 of
                                      [] \<Rightarrow> None
                                    | c # s5 \<Rightarrow>
                                        if c = CHR ''}''
                                        then Some (JObj (dict_of_pairs [] (pairs @ [(key, v)])), s5)
                                        else if c = CHR '',''
                                        then scan_object n (pairs @ [(key, v)]) (skip_ws s5)
                                        else None)))))"

definition json_loads :: "string \<Rightarrow> json option" where
  "json_loads s =
     (case scan_value (Suc (length s)) (skip_ws s) of
        None \<Rightarrow> None
      | Some (v, rest) \<Rightarrow> if skip_ws rest = [] then Some v else None)"

text \<open>
  The response text \<open>{"events": [],}\<close>: an object with a trailing comma, as a model that
  was asked for events only may write it.
\<close>

definition trailing_comma_response :: string where
  "trailing_comma_response = ''{'' @ [CHR 0x22] @ ''events'' @ [CHR 0x22] @ '': [],}''"

section \<open>Batch extraction (\<open>ExtractionService.extract_batch\<close>)\<close>

text \<open>
  A request is the dict that the batch endpoint builds from an \<open>ExtractionRequest\<close>:
  \<open>html_content\<close> and \<open>url\<close> are read with \<open>req[...]\<close>, the other three with
  \<open>req.get(..., default)\<close>.
\<close>

record extraction_request =
  req_html_content :: string
  req_url :: string
  req_extraction_type :: "string option"
  req_use_cache :: "bool option"
  req_confidence_threshold :: "rat option"

text \<open>The arguments of one call of \<open>extract_content\<close>, and the object it returns.\<close>

record extraction_call =
  call_html_content :: string
  call_url :: string
  call_extraction_type :: string
  call_use_cache :: bool
  call_confidence_threshold :: rat

record extraction_result =
  res_extracted_data :: json
  res_confidence_scores :: "(string \<times> rat) list"
  res_processing_time :: real
  res_cache_hit :: bool
  res_model_used :: string
  res_usage_stats :: json

text \<open>
  An entry of the returned list: \<open>{'success': True, 'extraction_data': ...,
  'confidence_scores': ..., 'processing_time_ms': ..., 'cache_hit': ..., 'url': ...}\<close> or
  \<open>{'success': False, 'error': ..., 'url': ...}\<close>.
\<close>

datatype batch_entry =
  BatchSuccess json "(string \<times> rat) list" int bool string
| BatchFailure string string

definition get_or :: "'a option \<Rightarrow> 'a \<Rightarrow> 'a" where
  "get_or field dflt = (case field of None \<Rightarrow> dflt | Some v \<Rightarrow> v)"

definition make_task :: "extraction_request \<Rightarrow> extraction_call" where
  "make_task req =
     \<lparr>call_html_content = req_html_content req,
      call_url = req_url req,
      call_extraction_type = get_or (req_extraction_type req) ''full'',
      call_use_cache = get_or (req_use_cache req) True,
      call_confidence_threshold = get_or (req_confidence_threshold req) (7 / 10)\<rparr>"

text \<open>\<open>int(x)\<close> on a float truncates towards zero.\<close>

definition py_int :: "real \<Rightarrow> int" where
  "py_int x = (if x \<ge> 0 then \<lfloor>x\<rfloor> else \<lceil>x\<rceil>)"

text \<open>
  \<open>asyncio.gather(*tasks, return_exceptions=True)\<close> returns one outcome per awaitable, in
  the order of the awaitables: the returned value, or the exception raised, here as its
  \<open>str\<close>. How the single-item operations interleave is not modelled: \<open>run i task\<close> is
  the outcome of the \<open>i\<close>-th one, whatever the schedule made it.
\<close>

fun gather :: "(nat \<Rightarrow> 'c \<Rightarrow> 'r) \<Rightarrow> nat \<Rightarrow> 'c list \<Rightarrow> 'r list" where
  "gather run i [] = []"
| "gather run i (task # tasks) = run i task # gather run (Suc i) tasks"

text \<open>
  The loop \<open>for i, result in enumerate(completed_tasks)\<close>; \<open>requests[i]\<close> raises
  \<open>IndexError\<close> when \<open>i\<close> is out of range.
\<close>

definition batch_entry_of :: "string \<Rightarrow> string + extraction_result \<Rightarrow> batch_entry" where
  "batch_entry_of u result =
     (case result of
        Inl exn \<Rightarrow> BatchFailure exn u
      | Inr r \<Rightarrow> BatchSuccess (res_extracted_data r) (res_confidence_scores r)
                  (py_int (res_processing_time r * 1000)) (res_cache_hit r) u)"

fun collect_results ::
  "extraction_request list \<Rightarrow> nat \<Rightarrow> (string + extraction_result) list
     \<Rightarrow> py_error + batch_entry list" where
  "collect_results requests i [] = Inr []"
| "collect_results requests i (result # rest) =
     (if i < length requests
      then bind_sum (collect_results requests (Suc i) rest) (\<lambda>results.
             Inr (batch_entry_of (req_url (requests ! i)) result # results))
      else Inl IndexError)"

definition extract_batch ::
  "(nat \<Rightarrow> extraction_call \<Rightarrow> string + extraction_result) \<Rightarrow> extraction_request list
     \<Rightarrow> py_error + batch_entry list" where
  "extract_batch run requests =
     (let tasks = map make_task requests;
          completed_tasks = gather run 0 tasks
      in collect_results requests 0 completed_tasks)"

text \<open>Three requests and a run in which the second single-item operation fails.\<close>

definition example_requests :: "extraction_request list" where
  "example_requests =
     [\<lparr>req_html_content = ''<h1>A</h1>'', req_url = ''https://a.example'',
       req_extraction_type = None, req_use_cache = None, req_confidence_threshold = None\<rparr>,
      \<lparr>req_html_content = ''<h1>B</h1>'', req_url = ''https://b.example'',
       req_extraction_type = Some ''events_only'', req_use_cache = Some False,
       req_confidence_threshold = Some (1 / 2)\<rparr>,
      \<lparr>req_html_content = ''<h1>C</h1>'', req_url = ''https://c.example'',
       req_extraction_type = None, req_use_cache = None, req_confidence_threshold = None\<rparr>]"

definition example_result :: "string \<Rightarrow> extraction_result" where
  "example_result title =
     \<lparr>res_extracted_data = JObj [(''events'', JArr [JObj [(''title'', JStr title)]])],
      res_confidence_scores = [(''overall'', 3 / 10)], res_processing_time = 5 / 4, res_cache_hit = False,
      res_model_used = ''gpt-4'', res_usage_stats = JObj []\<rparr>"

definition example_run :: "nat \<Rightarrow> extraction_call \<Rightarrow> string + extraction_result" where
  "example_run i task =
     (if i = 1 then Inl ''OpenAI API call failed: Content extraction failed: Error code: 429''
      else Inr (example_result (call_html_content task)))"

section \<open>The cache key generator (\<open>CacheService.generate_cache_key\<close>)\<close>

subsection \<open>\<open>hashlib.sha256(...).hexdigest()\<close>\<close>

text \<open>
  The digest of the standard library is SHA-256 as in FIPS 180-4, over the UTF-8 encoding of
  the string (\<open>str.encode()\<close>): a character below 128 is one byte, one from 128 to 255 is
  two. The message is padded with the byte \<open>0x80\<close>, zeros up to 56 modulo 64 and the
  length in bits as eight bytes, cut into blocks of 64 bytes, and each block is compressed
  into the state of eight 32-bit words; additions wrap. The hex digest writes the eight
  words with eight lower-case hexadecimal digits each.
\<close>

type_synonym hash_state =
  "32 word \<times> 32 word \<times> 32 word \<times> 32 word \<times> 32 word \<times> 32 word \<times> 32 word \<times> 32 word"

definition sha256_k :: "32 word list" where
  "sha256_k =
     [
      0x428A2F98, 0x71374491, 0xB5C0FBCF, 0xE9B5DBA5, 0x3956C25B, 0x59F111F1,
      0x923F82A4, 0xAB1C5ED5, 0xD807AA98, 0x12835B01, 0x243185BE, 0x550C7DC3,
      0x72BE5D74, 0x80DEB1FE, 0x9BDC06A7, 0xC19BF174, 0xE49B69C1, 0xEFBE4786,
      0x0FC19DC6, 0x240CA1CC, 0x2DE92C6F, 0x4A7484AA, 0x5CB0A9DC, 0x76F988DA,
      0x983E5152, 0xA831C66D, 0xB00327C8, 0xBF597FC7, 0xC6E00BF3, 0xD5A79147,
      0x06CA6351, 0x14292967, 0x27B70A85, 0x2E1B2138, 0x4D2C6DFC, 0x53380D13,
      0x650A7354, 0x766A0ABB, 0x81C2C92E, 0x92722C85, 0xA2BFE8A1, 0xA81A664B,
      0xC24B8B70, 0xC76C51A3, 0xD192E819, 0xD6990624, 0xF40E3585, 0x106AA070,
      0x19A4C116, 0x1E376C08, 0x2748774C, 0x34B0BCB5, 0x391C0CB3, 0x4ED8AA4A,
      0x5B9CCA4F, 0x682E6FF3, 0x748F82EE, 0x78A5636F, 0x84C87814, 0x8CC70208,
      0x90BEFFFA, 0xA4506CEB, 0xBEF9A3F7, 0xC67178F2]"

definition sha256_init :: hash_state where
  "sha256_init =
     (0x6A09E667, 0xBB67AE85, 0x3C6EF372, 0xA54FF53A, 0x510E527F, 0x9B05688C, 0x1F83D9AB, 0x5BE0CD19)"

definition rotr :: "nat \<Rightarrow> 32 word \<Rightarrow> 32 word" where
  "rotr n x = word_rotr n x"

definition ch :: "32 word \<Rightarrow> 32 word \<Rightarrow> 32 word \<Rightarrow> 32 word" where
  "ch x y z = (x AND y) XOR (NOT x AND z)"

definition maj :: "32 word \<Rightarrow> 32 word \<Rightarrow> 32 word \<Rightarrow> 32 word" where
  "maj x y z = (x AND y) XOR (x AND z) XOR (y AND z)"

definition big_sigma0 :: "32 word \<Rightarrow> 32 word" where
  "big_sigma0 x = rotr 2 x XOR rotr 13 x XOR rotr 22 x"

definition big_sigma1 :: "32 word \<Rightarrow> 32 word" where
  "big_sigma1 x = rotr 6 x XOR rotr 11 x XOR rotr 25 x"

definition small_sigma0 :: "32 word \<Rightarrow> 32 word" where
  "small_sigma0 x = rotr 7 x XOR rotr 18 x XOR drop_bit 3 x"

definition small_sigma1 :: "32 word \<Rightarrow> 32 word" where
  "small_sigma1 x = rotr 17 x XOR rotr 19 x XOR drop_bit 10 x"

definition utf8_char :: "char \<Rightarrow> nat list" where
  "utf8_char c =
     (let n = of_char c :: nat
      in if n < 128 then [n] else [192 + n div 64, 128 + n mod 64])"

definition encode :: "string \<Rightarrow> nat list" where
  "encode s = concat (map utf8_char s)"

definition be_bytes :: "nat \<Rightarrow> nat \<Rightarrow> nat list" where
  "be_bytes k n = map (\<lambda>i. (n div 256 ^ i) mod 256) (rev [0 ..< k])"

definition pad :: "nat list \<Rightarrow> nat list" where
  "pad msg =
     msg @ [128] @ replicate ((64 - (length msg + 9) mod 64) mod 64) 0
         @ be_bytes 8 (8 * length msg)"

function chunks :: "nat \<Rightarrow> 'a list \<Rightarrow> 'a list list" where
  "chunks n xs = (if n = 0 \<or> xs = [] then [] else take n xs # chunks n (drop n xs))"
  by pat_completeness auto
termination
  by (relation "measure (\<lambda>(n, xs). length xs)") auto

declare chunks.simps [simp del]

definition be_word :: "nat list \<Rightarrow> 32 word" where
  "be_word bs = word_of_nat (foldl (\<lambda>acc b. 256 * acc + b) 0 bs)"

fun extend_schedule :: "nat \<Rightarrow> 32 word list \<Rightarrow> 32 word list" where
  "extend_schedule 0 w = w"
| "extend_schedule (Suc n) w =
     extend_schedule n
       (w @ [small_sigma1 (w ! (length w - 2)) + w ! (length w - 7)
             + small_sigma0 (w ! (length w - 15)) + w ! (length w - 16)])"

definition sha256_round :: "32 word \<times> 32 word \<Rightarrow> hash_state \<Rightarrow> hash_state" where
  "sha256_round kw st =
     (case st of (a, b, c, d, e, f, g, h) \<Rightarrow>
        let t1 = h + big_sigma1 e + ch e f g + fst kw + snd kw;
            t2 = big_sigma0 a + maj a b c
        in (t1 + t2, a, b, c, d + t1, e, f, g))"

definition add_state :: "hash_state \<Rightarrow> hash_state \<Rightarrow> hash_state" where
  "add_state s t =
     (case (s, t) of ((a, b, c, d, e, f, g, h), (a', b', c', d', e', f', g', h')) \<Rightarrow>
        (a + a', b + b', c + c', d + d', e + e', f + f', g + g', h + h'))"

definition sha256_compress :: "nat list \<Rightarrow> hash_state \<Rightarrow> hash_state" where
  "sha256_compress block st =
     (let w = extend_schedule 48 (map be_word (chunks 4 block))
      in add_state st (fold sha256_round (zip sha256_k w) st))"

definition sha256 :: "nat list \<Rightarrow> hash_state" where
  "sha256 msg = fold sha256_compress (chunks 64 (pad msg)) sha256_init"

definition hex_chars :: string where
  "hex_chars = ''0123456789abcdef''"

definition hex_digit :: "nat \<Rightarrow> char" where
  "hex_digit n = hex_chars ! (n mod 16)"

definition hex_word :: "32 word \<Rightarrow> string" where
  "hex_word w = map (\<lambda>i. hex_digit (unat (drop_bit (4 * i) w))) [7, 6, 5, 4, 3, 2, 1, 0]"

definition hexdigest :: "hash_state \<Rightarrow> string" where
  "hexdigest st =
     (case st of (a, b, c, d, e, f, g, h) \<Rightarrow>
        hex_word a @ hex_word b @ hex_word c @ hex_word d
        @ hex_word e @ hex_word f @ hex_word g @ hex_word h)"

definition sha256_hex :: "string \<Rightarrow> string" where
  "sha256_hex s = hexdigest (sha256 (encode s))"

subsection \<open>\<open>_normalize_for_cache\<close> and \<open>generate_cache_key\<close>\<close>

text \<open>\<open>sep.join(xs)\<close>.\<close>

fun join :: "string \<Rightarrow> string list \<Rightarrow> string" where
  "join sep [] = []"
| "join sep [x] = x"
| "join sep (x # y # ys) = x @ sep @ join sep (y # ys)"

text \<open>
  The \<open>try\<close> block of \<open>_normalize_for_cache\<close> is the work of the BeautifulSoup library:
  parse the text, drop the \<open>script\<close>, \<open>style\<close> and \<open>meta\<close> elements, delete the
  attributes \<open>data-timestamp\<close>, \<open>data-time\<close> and \<open>id\<close>, and render with \<open>str(soup)\<close>.
  It is a parameter \<open>soup\<close> of the model, with \<open>None\<close> when the library raises. The
  program's own part is the white-space normalisation of the rendered text, or of the raw
  text in the \<open>except\<close> branch.
\<close>

definition normalize_for_cache :: "(string \<Rightarrow> string option) \<Rightarrow> string \<Rightarrow> string" where
  "normalize_for_cache soup html_content =
     (case soup html_content of
        Some rendered \<Rightarrow> join '' '' (split rendered)
      | None \<Rightarrow> join '' '' (split html_content))"

definition generate_cache_key :: "(string \<Rightarrow> string option) \<Rightarrow> string \<Rightarrow> string \<Rightarrow> string" where
  "generate_cache_key soup html_content extraction_type =
     (let normalized_content = normalize_for_cache soup html_content;
          content_hash = sha256_hex normalized_content
      in ''extraction:'' @ extraction_type @ '':'' @ take 16 content_hash)"

section \<open>Properties of the in-process cache\<close>

subsection \<open>The invariant\<close>

lemma has_key_iff: "has_key d k \<longleftrightarrow> k \<in> keys_of d"
  by (simp add: has_key_def keys_of_def map_of_eq_None_iff)

lemma keys_of_update: "keys_of (AList.update k v d) = insert k (keys_of d)"
  by (simp add: keys_of_def dom_update)

lemma keys_of_delete: "keys_of (AList.delete k d) = keys_of d - {k}"
proof -
  have "fst ` set (AList.delete k d) = set (map fst (AList.delete k d))" by simp
  also have "\<dots> = set (map fst d) - {k}" by (simp only: delete_keys set_removeAll)
  finally show ?thesis by (simp add: keys_of_def)
qed

lemma cache_inv_init: "cache_inv (memory_cache_init n)"
  by (simp add: cache_inv_def memory_cache_init_def keys_of_def)

lemma cache_inv_remove_key: "cache_inv s \<Longrightarrow> cache_inv (snd (remove_key key s))"
  by (auto simp: cache_inv_def remove_key_def has_key_iff keys_of_delete distinct_delete)

lemma cache_inv_store_entry: "cache_inv s \<Longrightarrow> cache_inv (store_entry now key v ttl s)"
  by (auto simp: cache_inv_def store_entry_def keys_of_update distinct_update)

lemma cache_inv_get: "cache_inv s \<Longrightarrow> cache_inv (snd (memory_get now key s))"
  using cache_inv_remove_key [of s key]
  by (auto simp: memory_get_def split: option.splits) (auto simp: cache_inv_def)

lemma cache_inv_evict:
  assumes "cache_inv s" and "access_order s = oldest_key # rest"
  shows "cache_inv (s\<lparr>access_order := rest, cache := AList.delete oldest_key (cache s)\<rparr>)"
  using assms by (auto simp: cache_inv_def keys_of_delete distinct_delete)

lemma cache_inv_set: "cache_inv s \<Longrightarrow> cache_inv (snd (memory_set now key v ttl s))"
proof -
  assume inv: "cache_inv s"
  show ?thesis
  proof (cases "int (length (cache s)) \<ge> max_size s \<and> \<not> has_key (cache s) key")
    case False
    then show ?thesis using inv by (auto simp: memory_set_def cache_inv_store_entry)
  next
    case True
    show ?thesis
    proof (cases "access_order s")
      case Nil
      with True inv show ?thesis by (simp add: memory_set_def)
    next
      case (Cons oldest_key rest)
      with inv have "has_key (cache s) oldest_key"
        by (auto simp: cache_inv_def has_key_iff)
      with True Cons inv show ?thesis
        by (simp add: memory_set_def cache_inv_store_entry cache_inv_evict)
    qed
  qed
qed

lemma reachable_cache_inv: "reachable_cache s \<Longrightarrow> cache_inv s"
proof (induction rule: reachable_cache.induct)
  case (init n)
  show ?case by (rule cache_inv_init)
next
  case (get s now key)
  then show ?case by (simp add: cache_inv_get)
next
  case (set s now key v ttl)
  then show ?case by (simp add: cache_inv_set)
next
  case (delete s key)
  then show ?case by (simp add: memory_delete_def cache_inv_remove_key)
qed

subsection \<open>What \<open>set\<close> and \<open>get\<close> do in a state that satisfies the invariant\<close>

lemma map_of_store_entry:
  "map_of (cache (store_entry now key v ttl s)) key
     = Some \<lparr>entry_value = v, entry_ttl = ttl, created_at = now\<rparr>"
  by (simp add: store_entry_def update_conv')

lemma key_in_order_store_entry: "key \<in> set (access_order (store_entry now key v ttl s))"
  by (simp add: store_entry_def)

lemma memory_set_ok:
  assumes "cache_inv s" and "0 < max_size s"
  shows "fst (memory_set now key v ttl s) = Inr True"
proof (cases "int (length (cache s)) \<ge> max_size s \<and> \<not> has_key (cache s) key")
  case False
  then show ?thesis by (auto simp: memory_set_def)
next
  case True
  with assms(2) have "cache s \<noteq> []" by auto
  then have "keys_of (cache s) \<noteq> {}" by (simp add: keys_of_def)
  with assms(1) obtain oldest_key rest where o: "access_order s = oldest_key # rest"
    by (cases "access_order s") (auto simp: cache_inv_def)
  with assms(1) have "has_key (cache s) oldest_key"
    by (auto simp: cache_inv_def has_key_iff)
  with True o show ?thesis by (simp add: memory_set_def)
qed

lemma memory_set_stores:
  assumes "fst (memory_set now key v ttl s) = Inr b"
  shows "map_of (cache (snd (memory_set now key v ttl s))) key
           = Some \<lparr>entry_value = v, entry_ttl = ttl, created_at = now\<rparr>
         \<and> key \<in> set (access_order (snd (memory_set now key v ttl s)))"
  using assms
  by (auto simp: memory_set_def map_of_store_entry key_in_order_store_entry
           split: if_splits list.splits)

lemma memory_get_hit:
  assumes "map_of (cache s) key = Some e" and "\<not> expired now e" and "key \<in> set (access_order s)"
  shows "memory_get now key s
           = (Inr (Some (entry_value e)), s\<lparr>access_order := remove1 key (access_order s) @ [key]\<rparr>)"
  using assms by (simp add: memory_get_def)

lemma memory_get_expired:
  assumes "map_of (cache s) key = Some e" and "expired now e"
  shows "memory_get now key s = (Inr None, snd (remove_key key s))"
  using assms by (simp add: memory_get_def)

lemma remove_key_gone:
  "\<not> has_key (cache (snd (remove_key key s))) key"
  by (auto simp: remove_key_def has_key_def delete_conv')

lemma remove_key_order_gone:
  "cache_inv s \<Longrightarrow> key \<notin> set (access_order (snd (remove_key key s)))"
  by (auto simp: remove_key_def cache_inv_def has_key_iff)

lemma memory_get_Some_fresh:
  assumes "fst (memory_get now key s) = Inr (Some v)"
  shows "\<exists>e. map_of (cache s) key = Some e \<and> entry_value e = v \<and> \<not> expired now e"
  using assms by (auto simp: memory_get_def split: option.splits if_splits)

lemma set_then_get_ok:
  "fst (memory_set now key v ttl s) = Inr b \<Longrightarrow>
   set_then_get now now' key v ttl s = memory_get now' key (snd (memory_set now key v ttl s))"
  by (cases "memory_set now key v ttl s") (simp add: set_then_get_def)

lemma map_of_store_entry_other:
  "k \<noteq> key \<Longrightarrow> map_of (cache (store_entry now key v ttl s)) k = map_of (cache s) k"
  by (simp add: store_entry_def update_conv')

lemma memory_set_present:
  assumes "has_key (cache s) key"
  shows "memory_set now key v ttl s = (Inr True, store_entry now key v ttl s)"
  using assms by (simp add: memory_set_def)

lemma length_update_present:
  "map_of d k \<noteq> None \<Longrightarrow> length (AList.update k v d) = length d"
  by (induction d) auto

lemma expired_falsy_ttl:
  "entry_ttl e = None \<or> entry_ttl e = Some 0 \<Longrightarrow> \<not> expired now e"
  by (auto simp: expired_def)

lemma ttl_or_falsy: "ttl = None \<or> ttl = Some 0 \<Longrightarrow> ttl_or ttl dflt = Some dflt"
  by (auto simp: ttl_or_def)

lemma ttl_or_nonzero: "dflt \<noteq> 0 \<Longrightarrow> \<exists>t. ttl_or ttl dflt = Some t \<and> t \<noteq> 0"
  by (auto simp: ttl_or_def split: option.splits)

lemma service_set_backend:
  "backend (snd (service_set now key v ttl svc))
     = snd (memory_set now key v (ttl_or ttl (service_ttl svc)) (backend svc))"
  by (cases "memory_set now key v (ttl_or ttl (service_ttl svc)) (backend svc)")
     (auto simp: service_set_def split: sum.splits)

lemma service_set_ok:
  "fst (memory_set now key v (ttl_or ttl (service_ttl svc)) (backend svc)) = Inr b
   \<Longrightarrow> fst (service_set now key v ttl svc) = b"
  by (cases "memory_set now key v (ttl_or ttl (service_ttl svc)) (backend svc)")
     (auto simp: service_set_def split: sum.splits)

lemma service_get_fst:
  "fst (service_get now key svc)
     = (case fst (memory_get now key (backend svc)) of Inr r \<Rightarrow> r | Inl e \<Rightarrow> None)"
  by (cases "memory_get now key (backend svc)") (auto simp: service_get_def split: sum.splits)

lemma two_key_cache_reachable: "reachable_cache two_key_cache"
  unfolding two_key_cache_def
  by (intro reachable_cache.get reachable_cache.set reachable_cache.init)

lemma two_key_cache_eq:
  "two_key_cache =
     \<lparr>cache = [(''a'', \<lparr>entry_value = 10, entry_ttl = None, created_at = 1\<rparr>),
               (''b'', \<lparr>entry_value = 20, entry_ttl = None, created_at = 2\<rparr>)],
      access_order = [''b'', ''a''], max_size = 2\<rparr>"
  by (simp add: two_key_cache_def memory_set_def memory_get_def memory_cache_init_def
        store_entry_def has_key_def expired_def)

subsection \<open>Least-recently-used eviction\<close>

lemma sorted_wrt_remove1: "sorted_wrt P xs \<Longrightarrow> sorted_wrt P (remove1 x xs)"
  by (induction xs) (auto dest: notin_set_remove1)

lemma lru_inv_init: "lru_inv (logged_init n)"
  by (simp add: lru_inv_def logged_init_def cache_inv_init) (simp add: memory_cache_init_def)

lemma cache_inv_apply_op: "cache_inv s \<Longrightarrow> cache_inv (apply_op op s)"
  by (cases op) (simp_all add: cache_inv_get cache_inv_set memory_delete_def cache_inv_remove_key)

lemma access_order_remove_key:
  "cache_inv s \<Longrightarrow> access_order (snd (remove_key key s)) = remove1 key (access_order s)"
  by (auto simp: remove_key_def cache_inv_def has_key_iff remove1_idem)

lemma order_stepI:
  assumes "set ys \<subseteq> set before" and "\<And>P. sorted_wrt P before \<Longrightarrow> sorted_wrt P ys"
    and "case accessed of None \<Rightarrow> after = ys
         | Some k \<Rightarrow> k \<notin> set ys \<and> (after = ys @ [k] \<or> after = ys)"
  shows "order_step before accessed after"
  using assms unfolding order_step_def by blast

lemma order_step_get:
  assumes inv: "cache_inv s"
  shows "order_step (access_order s) (accessed_key (OpGet now key))
           (access_order (apply_op (OpGet now key) s))"
proof (cases "map_of (cache s) key")
  case None
  then have "\<not> has_key (cache s) key" by (simp add: has_key_def)
  with inv have "key \<notin> set (access_order s)" by (simp add: cache_inv_def has_key_iff)
  with None show ?thesis
    by (intro order_stepI [of "access_order s"]) (simp_all add: memory_get_def)
next
  case (Some e)
  then have "has_key (cache s) key" by (simp add: has_key_def)
  with inv have mem: "key \<in> set (access_order s)" by (simp add: cache_inv_def has_key_iff)
  from inv have dist: "distinct (access_order s)" by (simp add: cache_inv_def)
  show ?thesis
  proof (cases "expired now e")
    case True
    with Some inv dist show ?thesis
      by (intro order_stepI [of "remove1 key (access_order s)"])
         (auto simp: memory_get_def access_order_remove_key sorted_wrt_remove1
               dest: set_remove1_subset [THEN subsetD])
  next
    case False
    with Some mem dist show ?thesis
      by (intro order_stepI [of "remove1 key (access_order s)"])
         (auto simp: memory_get_def sorted_wrt_remove1 dest: set_remove1_subset [THEN subsetD])
  qed
qed

lemma order_step_set:
  assumes inv: "cache_inv s" and new: "\<not> has_key (cache s) key"
  shows "order_step (access_order s) (accessed_key (OpSet now key v ttl))
           (access_order (apply_op (OpSet now key v ttl) s))"
proof -
  from new inv have notin: "key \<notin> set (access_order s)" by (simp add: cache_inv_def has_key_iff)
  show ?thesis
  proof (cases "int (length (cache s)) \<ge> max_size s")
    case False
    with new notin show ?thesis
      by (intro order_stepI [of "access_order s"]) (simp_all add: memory_set_def store_entry_def)
  next
    case full: True
    show ?thesis
    proof (cases "access_order s")
      case Nil
      with new full show ?thesis
        by (intro order_stepI [of "[]"]) (simp_all add: memory_set_def)
    next
      case (Cons oldest_key rest)
      with inv have "has_key (cache s) oldest_key" by (auto simp: cache_inv_def has_key_iff)
      with new full Cons notin show ?thesis
        by (intro order_stepI [of rest]) (auto simp: memory_set_def store_entry_def)
    qed
  qed
qed

lemma order_step_delete:
  assumes inv: "cache_inv s"
  shows "order_step (access_order s) (accessed_key (OpDelete key))
           (access_order (apply_op (OpDelete key) s))"
  using inv
  by (intro order_stepI [of "remove1 key (access_order s)"])
     (auto simp: memory_delete_def access_order_remove_key sorted_wrt_remove1
           dest: set_remove1_subset [THEN subsetD])

lemma order_step_apply_op:
  "cache_inv s \<Longrightarrow> \<not> overwrites op s
     \<Longrightarrow> order_step (access_order s) (accessed_key op) (access_order (apply_op op s))"
  by (cases op)
     (auto intro: order_step_get order_step_set order_step_delete
           simp del: accessed_key.simps apply_op.simps)

lemma lru_inv_step:
  assumes "lru_inv l" and now: "\<not> overwrites op (state l)"
  shows "lru_inv (logged_step l op)"
proof -
  let ?s = "state l" and ?la = "last_access l" and ?n = "clock l"
  from assms have inv: "cache_inv ?s"
    and srt: "sorted_wrt (\<lambda>a b. ?la a < ?la b) (access_order ?s)"
    and bnd: "\<forall>k \<in> set (access_order ?s). ?la k \<le> ?n"
    by (simp_all add: lru_inv_def)
  from order_step_apply_op [OF inv now] obtain ys where
    sub: "set ys \<subseteq> set (access_order ?s)"
    and keep: "\<And>P. sorted_wrt P (access_order ?s) \<Longrightarrow> sorted_wrt P ys"
    and after: "case accessed_key op of
                  None \<Rightarrow> access_order (apply_op op ?s) = ys
                | Some k \<Rightarrow> k \<notin> set ys
                    \<and> (access_order (apply_op op ?s) = ys @ [k] \<or> access_order (apply_op op ?s) = ys)"
    unfolding order_step_def by blast
  from srt have sys: "sorted_wrt (\<lambda>a b. ?la a < ?la b) ys" by (rule keep)
  from sub bnd have bys: "\<forall>k \<in> set ys. ?la k \<le> ?n" by blast
  have c: "cache_inv (state (logged_step l op))"
    using inv by (simp add: logged_step_def cache_inv_apply_op)
  show ?thesis
  proof (cases "accessed_key op")
    case None
    with after sys bys c show ?thesis
      by (auto simp: lru_inv_def logged_step_def intro: le_SucI)
  next
    case (Some k)
    define la' where "la' = ?la(k := Suc ?n)"
    from Some after have k: "k \<notin> set ys"
      and o: "access_order (apply_op op ?s) = ys @ [k] \<or> access_order (apply_op op ?s) = ys"
      by simp_all
    have la'k: "la' k = Suc ?n" by (simp add: la'_def)
    from k have same: "la' a = ?la a" if "a \<in> set ys" for a using that by (auto simp: la'_def)
    have s1: "sorted_wrt (\<lambda>a b. la' a < la' b) ys"
    proof (rule sorted_wrt_mono_rel [OF _ sys])
      fix a b
      assume "a \<in> set ys" "b \<in> set ys" "?la a < ?la b"
      then show "la' a < la' b" by (simp only: same)
    qed
    from bys have lt: "\<forall>a \<in> set ys. la' a < la' k" by (simp add: same la'k le_imp_less_Suc)
    from s1 lt have s2: "sorted_wrt (\<lambda>a b. la' a < la' b) (ys @ [k])"
      by (simp add: sorted_wrt_append)
    from bys have b1: "\<forall>a \<in> set ys. la' a \<le> Suc ?n" by (simp add: same le_SucI)
    have la: "last_access (logged_step l op) = la'"
      using Some by (simp add: logged_step_def la'_def)
    have st: "access_order (state (logged_step l op)) = access_order (apply_op op ?s)"
      and cl: "clock (logged_step l op) = Suc ?n"
      by (simp_all add: logged_step_def)
    from o show ?thesis
    proof
      assume "access_order (apply_op op ?s) = ys @ [k]"
      with s2 b1 la'k c show ?thesis by (simp add: lru_inv_def la st cl)
    next
      assume "access_order (apply_op op ?s) = ys"
      with s1 b1 c show ?thesis by (simp add: lru_inv_def la st cl)
    qed
  qed
qed

lemma lru_inv_foldl:
  "lru_inv l \<Longrightarrow> overwrite_free (state l) ops \<Longrightarrow> lru_inv (foldl logged_step l ops)"
proof (induction ops arbitrary: l)
  case Nil
  then show ?case by simp
next
  case (Cons op ops)
  from Cons.prems have "lru_inv (logged_step l op)" by (simp add: lru_inv_step)
  moreover from Cons.prems have "overwrite_free (state (logged_step l op)) ops"
    by (simp add: logged_step_def)
  ultimately show ?case by (simp add: Cons.IH)
qed

lemma lru_inv_run: "overwrite_free (memory_cache_init n) ops \<Longrightarrow> lru_inv (logged_run n ops)"
  unfolding logged_run_def by (rule lru_inv_foldl [OF lru_inv_init]) (simp add: logged_init_def)

lemma oldest_is_least_recent:
  assumes "lru_inv l" and "access_order (state l) = oldest_key # rest"
  shows "oldest_key \<in> keys_of (cache (state l))
     \<and> (\<forall>k \<in> keys_of (cache (state l)). k \<noteq> oldest_key
            \<longrightarrow> last_access l oldest_key < last_access l k)"
  using assms by (auto simp: lru_inv_def cache_inv_def)

lemma memory_set_evicts:
  assumes inv: "cache_inv s"
    and full: "int (length (cache s)) \<ge> max_size s" and new: "\<not> has_key (cache s) key"
    and ord: "access_order s = oldest_key # rest"
  shows "fst (memory_set now key v ttl s) = Inr True
          \<and> keys_of (cache (snd (memory_set now key v ttl s)))
              = insert key (keys_of (cache s) - {oldest_key})
          \<and> access_order (snd (memory_set now key v ttl s)) = rest @ [key]
          \<and> (\<forall>k. k \<noteq> oldest_key \<and> k \<noteq> key
                \<longrightarrow> map_of (cache (snd (memory_set now key v ttl s))) k = map_of (cache s) k)"
proof -
  from inv ord have old: "has_key (cache s) oldest_key"
    by (auto simp: cache_inv_def has_key_iff)
  from inv ord new have "key \<notin> set rest"
    by (auto simp: cache_inv_def has_key_iff)
  with full new ord old show ?thesis
    by (simp add: memory_set_def store_entry_def keys_of_update keys_of_delete update_conv')
qed

lemma memory_set_overwrites:
  assumes inv: "cache_inv s" and present: "has_key (cache s) key"
  shows "fst (memory_set now key v ttl s) = Inr True
          \<and> keys_of (cache (snd (memory_set now key v ttl s))) = keys_of (cache s)
          \<and> length (cache (snd (memory_set now key v ttl s))) = length (cache s)
          \<and> access_order (snd (memory_set now key v ttl s)) = access_order s"
proof -
  from inv present have "key \<in> set (access_order s)" by (simp add: cache_inv_def has_key_iff)
  moreover from present have "insert key (keys_of (cache s)) = keys_of (cache s)"
    by (auto simp: has_key_iff)
  moreover from present have "map_of (cache s) key \<noteq> None" by (simp add: has_key_def)
  ultimately show ?thesis using present
    by (simp add: memory_set_present store_entry_def keys_of_update length_update_present)
qed

text \<open>
  In a run without an overwriting \<open>set\<close> the access order agrees with the log, so the key
  that a \<open>set\<close> of a new key evicts at capacity is the least recently accessed one, and
  no other entry is touched.
\<close>

lemma eviction_without_overwrite:
  assumes free: "overwrite_free (memory_cache_init n) ops" and l: "l = logged_run n ops"
    and full: "int (length (cache (state l))) \<ge> max_size (state l)"
    and new: "\<not> has_key (cache (state l)) key" and ne: "cache (state l) \<noteq> []"
  shows "\<exists>oldest_key.
             oldest_key \<in> keys_of (cache (state l))
           \<and> (\<forall>k \<in> keys_of (cache (state l)).
                  k \<noteq> oldest_key \<longrightarrow> last_access l oldest_key < last_access l k)
           \<and> fst (memory_set now key v ttl (state l)) = Inr True
           \<and> keys_of (cache (snd (memory_set now key v ttl (state l))))
               = insert key (keys_of (cache (state l)) - {oldest_key})
           \<and> (\<forall>k. k \<noteq> oldest_key \<and> k \<noteq> key
                 \<longrightarrow> map_of (cache (snd (memory_set now key v ttl (state l)))) k
                     = map_of (cache (state l)) k)"
proof -
  from free l have li: "lru_inv l" by (simp add: lru_inv_run)
  then have inv: "cache_inv (state l)"
    and keys: "set (access_order (state l)) = keys_of (cache (state l))"
    by (simp_all add: lru_inv_def cache_inv_def)
  from ne have "keys_of (cache (state l)) \<noteq> {}" by (simp add: keys_of_def)
  with keys obtain oldest_key rest where ord: "access_order (state l) = oldest_key # rest"
    by (cases "access_order (state l)") auto
  from oldest_is_least_recent [OF li ord] memory_set_evicts [OF inv full new ord]
  show ?thesis by blast
qed

text \<open>
  Claim C4 says that a \<open>set\<close> of a new key at capacity evicts the least recently accessed
  key. The code keeps recency in \<open>_access_order\<close>: a \<open>get\<close> hit moves the key to the back
  and a \<open>set\<close> of a new key puts it at the back, but a \<open>set\<close> that overwrites a present
  key stores the new entry and leaves the key where it is. At capacity 2, after
  \<open>set('a', 10)\<close>, \<open>set('b', 20)\<close> and \<open>set('a', 11)\<close>, the last access of \<open>'b'\<close> (operation
  2) is older than that of \<open>'a'\<close> (operation 3), yet the access order is still
  \<open>['a', 'b']\<close>, and \<open>set('c', 30)\<close> evicts \<open>'a'\<close>, the key written last, and keeps \<open>'b'\<close>.
  When the third operation is \<open>get('a')\<close> instead, the accesses are numbered the same and
  \<open>set('c', 30)\<close> evicts \<open>'b'\<close>.
\<close>

theorem overwritten_key_evicted_first:
  "state overwrite_log =
     \<lparr>cache = [(''a'', \<lparr>entry_value = 11, entry_ttl = None, created_at = 3\<rparr>),
               (''b'', \<lparr>entry_value = 20, entry_ttl = None, created_at = 2\<rparr>)],
      access_order = [''a'', ''b''], max_size = 2\<rparr>
   \<and> last_access overwrite_log ''a'' = 3 \<and> last_access overwrite_log ''b'' = 2
   \<and> fst (memory_set 4 ''c'' 30 None (state overwrite_log)) = Inr True
   \<and> keys_of (cache (snd (memory_set 4 ''c'' 30 None (state overwrite_log)))) = {''b'', ''c''}
   \<and> last_access two_key_log ''a'' = 3 \<and> last_access two_key_log ''b'' = 2
   \<and> keys_of (cache (snd (memory_set 4 ''c'' 30 None (state two_key_log)))) = {''a'', ''c''}"
  by (simp add: overwrite_log_def two_key_log_def logged_run_def logged_init_def logged_step_def
        memory_set_def memory_get_def memory_cache_init_def store_entry_def has_key_def
        expired_def keys_of_def insert_commute)

subsection \<open>Round trip and lazy expiry\<close>

text \<open>
  Claim C5, as stated, is false for a ttl of \<open>0\<close> and for a negative ttl. An entry stored
  with ttl \<open>0\<close> at time 0 is still returned at time 1, although more than ttl seconds have
  passed: the test of \<open>get\<close> treats a falsy ttl as "no expiry". An entry stored with ttl
  \<open>-1\<close> is reported absent by a \<open>get\<close> at the very same time.
\<close>

theorem set_get_roundtrip_counterexample:
  "fst (set_then_get 0 1 ''k'' ''v'' (Some 0) (memory_cache_init 1000)) = Inr (Some ''v'')
   \<and> fst (set_then_get 0 0 ''k'' ''v'' (Some (- 1)) (memory_cache_init 1000)) = Inr None"
  by (simp add: set_then_get_def memory_set_def memory_get_def memory_cache_init_def
        store_entry_def remove_key_def has_key_def expired_def)

text \<open>
  Claim C5, amended. In every reachable state of a cache of positive capacity, for every key,
  value and ttl: \<open>set\<close> returns \<open>True\<close>; a \<open>get\<close> of the key that follows it returns the
  value when the ttl is \<open>None\<close> or \<open>0\<close>, or when no more than ttl seconds have passed since
  the \<open>set\<close> (in particular at once, for a ttl that is not negative); when the ttl is not
  \<open>0\<close> and more than ttl seconds have passed, the \<open>get\<close> returns \<open>None\<close> and leaves the
  key neither in the dict nor in the access order. Whenever a \<open>get\<close> returns a value, it is
  the value of an entry that is not expired at that time.
\<close>

theorem set_get_roundtrip:
  assumes "reachable_cache s" and "0 < max_size s"
  shows "fst (memory_set now key v ttl s) = Inr True \<and>
    (ttl = None \<or> ttl = Some 0 \<or> (\<exists>t. ttl = Some t \<and> now' - now \<le> real_of_int t)
       \<longrightarrow> fst (set_then_get now now' key v ttl s) = Inr (Some v)) \<and>
    (\<forall>t. ttl = Some t \<and> t \<noteq> 0 \<and> now' - now > real_of_int t
       \<longrightarrow> fst (set_then_get now now' key v ttl s) = Inr None
           \<and> \<not> has_key (cache (snd (set_then_get now now' key v ttl s))) key
           \<and> key \<notin> set (access_order (snd (set_then_get now now' key v ttl s)))) \<and>
    (\<forall>w. fst (memory_get now' key s) = Inr (Some w)
       \<longrightarrow> (\<exists>e. map_of (cache s) key = Some e \<and> entry_value e = w \<and> \<not> expired now' e))"
proof -
  let ?e = "\<lparr>entry_value = v, entry_ttl = ttl, created_at = now\<rparr>"
  let ?s1 = "snd (memory_set now key v ttl s)"
  from assms(1) have inv: "cache_inv s" by (rule reachable_cache_inv)
  then have inv1: "cache_inv ?s1" by (rule cache_inv_set)
  from inv assms(2) have ok: "fst (memory_set now key v ttl s) = Inr True"
    by (rule memory_set_ok)
  then have stored: "map_of (cache ?s1) key = Some ?e" and ord: "key \<in> set (access_order ?s1)"
    using memory_set_stores [of now key v ttl s True] by simp_all
  from ok have stg: "set_then_get now now' key v ttl s = memory_get now' key ?s1"
    by (rule set_then_get_ok)
  have fresh: "fst (set_then_get now now' key v ttl s) = Inr (Some v)"
    if "ttl = None \<or> ttl = Some 0 \<or> (\<exists>t. ttl = Some t \<and> now' - now \<le> real_of_int t)"
  proof -
    from that have "\<not> expired now' ?e" by (auto simp: expired_def)
    with stored ord show ?thesis by (simp add: stg memory_get_hit)
  qed
  have stale: "fst (set_then_get now now' key v ttl s) = Inr None
           \<and> \<not> has_key (cache (snd (set_then_get now now' key v ttl s))) key
           \<and> key \<notin> set (access_order (snd (set_then_get now now' key v ttl s)))"
    if "ttl = Some t \<and> t \<noteq> 0 \<and> now' - now > real_of_int t" for t
  proof -
    from that have "expired now' ?e" by (simp add: expired_def)
    with stored have "memory_get now' key ?s1 = (Inr None, snd (remove_key key ?s1))"
      by (rule memory_get_expired)
    then show ?thesis using inv1 by (simp add: stg remove_key_gone remove_key_order_gone)
  qed
  from ok fresh stale memory_get_Some_fresh [of now' key s] show ?thesis by blast
qed

theorem set_get_roundtrip_witness:
  "reachable_cache (memory_cache_init 1000 :: (string, string) memory_cache)
   \<and> 0 < max_size (memory_cache_init 1000 :: (string, string) memory_cache)
   \<and> fst (memory_set 0 ''k'' ''v'' (Some 60) (memory_cache_init 1000)) = Inr True
   \<and> fst (set_then_get 0 30 ''k'' ''v'' (Some 60) (memory_cache_init 1000)) = Inr (Some ''v'')
   \<and> fst (set_then_get 0 61 ''k'' ''v'' (Some 60) (memory_cache_init 1000)) = Inr None
   \<and> \<not> has_key (cache (snd (set_then_get 0 61 ''k'' ''v'' (Some 60) (memory_cache_init 1000)))) ''k''"
proof -
  have r: "reachable_cache (memory_cache_init 1000 :: (string, string) memory_cache)"
    by (rule reachable_cache.init)
  have m: "0 < max_size (memory_cache_init 1000 :: (string, string) memory_cache)"
    by (simp add: memory_cache_init_def)
  from set_get_roundtrip [OF r m, of 0 "''k''" "''v''" "Some 60" 30]
       set_get_roundtrip [OF r m, of 0 "''k''" "''v''" "Some 60" 61] r m
  show ?thesis by simp
qed

subsection \<open>Entries without a ttl, and the default ttl of the service\<close>

text \<open>
  Claim C10, as stated, is false when the configured default ttl is itself \<open>0\<close>: the
  service then stores the entry with ttl \<open>0\<close>, and it is still returned after 1000000
  seconds.
\<close>

theorem service_default_ttl_counterexample:
  "map_of (cache (backend (snd (service_set 0 ''k'' ''v'' None (service_init 0))))) ''k''
     = Some \<lparr>entry_value = ''v'', entry_ttl = Some 0, created_at = 0\<rparr>
   \<and> fst (service_get 1000000 ''k'' (snd (service_set 0 ''k'' ''v'' None (service_init 0))))
     = Some ''v''"
  by (simp add: service_set_def service_get_def service_init_def ttl_or_def memory_set_def
        memory_get_def memory_cache_init_def store_entry_def has_key_def expired_def)

text \<open>
  Claim C10, amended. (1) In every reachable state of the backend, an entry whose ttl is
  \<open>None\<close> or \<open>0\<close> is returned by \<open>get\<close> at every time. (2) A \<open>set\<close> through the
  service with ttl \<open>None\<close> or \<open>0\<close> succeeds and stores the entry with the configured
  default ttl. (3) When the configured default ttl is not \<open>0\<close>, every entry written through
  the service carries a ttl that is not \<open>0\<close>, and a \<open>get\<close> through the service reports it
  absent once more than that ttl has passed.
\<close>

theorem falsy_ttl_and_service_default:
  assumes "reachable_cache s" and "reachable_cache (backend svc)" and "0 < max_size (backend svc)"
  shows
    "(map_of (cache s) key = Some e \<and> (entry_ttl e = None \<or> entry_ttl e = Some 0)
        \<longrightarrow> fst (memory_get now' key s) = Inr (Some (entry_value e))) \<and>
     (ttl = None \<or> ttl = Some 0
        \<longrightarrow> fst (service_set now key v ttl svc) = True
            \<and> map_of (cache (backend (snd (service_set now key v ttl svc)))) key
                = Some \<lparr>entry_value = v, entry_ttl = Some (service_ttl svc), created_at = now\<rparr>) \<and>
     (service_ttl svc \<noteq> 0
        \<longrightarrow> (\<exists>t. t \<noteq> 0
              \<and> map_of (cache (backend (snd (service_set now key v ttl svc)))) key
                  = Some \<lparr>entry_value = v, entry_ttl = Some t, created_at = now\<rparr>
              \<and> (now' - now > real_of_int t
                   \<longrightarrow> fst (service_get now' key (snd (service_set now key v ttl svc))) = None)))"
proof -
  let ?b = "memory_set now key v (ttl_or ttl (service_ttl svc)) (backend svc)"
  from assms(1) have inv: "cache_inv s" by (rule reachable_cache_inv)
  from assms(2) have invb: "cache_inv (backend svc)" by (rule reachable_cache_inv)
  from invb assms(3) have ok: "fst ?b = Inr True" by (rule memory_set_ok)
  then have stored: "map_of (cache (snd ?b)) key
      = Some \<lparr>entry_value = v, entry_ttl = ttl_or ttl (service_ttl svc), created_at = now\<rparr>"
    using memory_set_stores [of now key v "ttl_or ttl (service_ttl svc)" "backend svc" True]
    by simp
  have A: "fst (memory_get now' key s) = Inr (Some (entry_value e))"
    if "map_of (cache s) key = Some e" and "entry_ttl e = None \<or> entry_ttl e = Some 0"
  proof -
    from that(1) have "has_key (cache s) key" by (simp add: has_key_def)
    with inv have "key \<in> set (access_order s)" by (simp add: cache_inv_def has_key_iff)
    with that show ?thesis by (simp add: memory_get_hit expired_falsy_ttl)
  qed
  have B: "fst (service_set now key v ttl svc) = True
            \<and> map_of (cache (backend (snd (service_set now key v ttl svc)))) key
                = Some \<lparr>entry_value = v, entry_ttl = Some (service_ttl svc), created_at = now\<rparr>"
    if "ttl = None \<or> ttl = Some 0"
    using ok stored that by (simp add: service_set_ok service_set_backend ttl_or_falsy)
  have C: "\<exists>t. t \<noteq> 0
              \<and> map_of (cache (backend (snd (service_set now key v ttl svc)))) key
                  = Some \<lparr>entry_value = v, entry_ttl = Some t, created_at = now\<rparr>
              \<and> (now' - now > real_of_int t
                   \<longrightarrow> fst (service_get now' key (snd (service_set now key v ttl svc))) = None)"
    if "service_ttl svc \<noteq> 0"
  proof -
    from that obtain t where t: "ttl_or ttl (service_ttl svc) = Some t" "t \<noteq> 0"
      using ttl_or_nonzero by blast
    let ?e = "\<lparr>entry_value = v, entry_ttl = Some t, created_at = now\<rparr>"
    from stored t have st: "map_of (cache (snd ?b)) key = Some ?e" by simp
    have "fst (service_get now' key (snd (service_set now key v ttl svc))) = None"
      if "now' - now > real_of_int t"
    proof -
      from that t have "expired now' ?e" by (simp add: expired_def)
      with st have "memory_get now' key (snd ?b) = (Inr None, snd (remove_key key (snd ?b)))"
        by (rule memory_get_expired)
      then show ?thesis by (simp add: service_get_fst service_set_backend)
    qed
    with st t(2) show ?thesis by (auto simp: service_set_backend)
  qed
  from A B C show ?thesis by blast
qed

theorem falsy_ttl_and_service_default_witness:
  "reachable_cache two_key_cache
   \<and> reachable_cache (backend (service_init 3600 :: (string, string) cache_service))
   \<and> 0 < max_size (backend (service_init 3600 :: (string, string) cache_service))
   \<and> map_of (cache two_key_cache) ''a''
       = Some \<lparr>entry_value = 10, entry_ttl = None, created_at = 1\<rparr>
   \<and> fst (memory_get 1000000 ''a'' two_key_cache) = Inr (Some 10)
   \<and> fst (service_set 0 ''k'' ''v'' None (service_init 3600)) = True
   \<and> map_of (cache (backend (snd (service_set 0 ''k'' ''v'' None (service_init 3600))))) ''k''
       = Some \<lparr>entry_value = ''v'', entry_ttl = Some 3600, created_at = 0\<rparr>
   \<and> fst (service_get 3601 ''k'' (snd (service_set 0 ''k'' ''v'' None (service_init 3600))))
       = None"
proof -
  have r: "reachable_cache (backend (service_init 3600 :: (string, string) cache_service))"
    by (simp add: service_init_def reachable_cache.init)
  have m: "0 < max_size (backend (service_init 3600 :: (string, string) cache_service))"
    by (simp add: service_init_def memory_cache_init_def)
  have a: "map_of (cache two_key_cache) ''a''
       = Some \<lparr>entry_value = 10, entry_ttl = None, created_at = 1\<rparr>"
    by (simp add: two_key_cache_eq)
  have d: "service_ttl (service_init 3600 :: (string, string) cache_service) = 3600"
    by (simp add: service_init_def)
  from falsy_ttl_and_service_default [OF two_key_cache_reachable r m,
         where key = "''a''" and now' = 1000000
           and e = "\<lparr>entry_value = 10, entry_ttl = None, created_at = 1\<rparr>"] a
  have 1: "fst (memory_get 1000000 ''a'' two_key_cache) = Inr (Some 10)"
    by simp
  from falsy_ttl_and_service_default [OF two_key_cache_reachable r m,
         where key = "''k''" and ttl = None and now = 0 and v = "''v''" and now' = 3601
           and e = "\<lparr>entry_value = 10, entry_ttl = None, created_at = 1\<rparr>"]
  have 2: "fst (service_set 0 ''k'' ''v'' None (service_init 3600)) = True"
    and 3: "map_of (cache (backend (snd (service_set 0 ''k'' ''v'' None (service_init 3600))))) ''k''
       = Some \<lparr>entry_value = ''v'', entry_ttl = Some 3600, created_at = 0\<rparr>"
    and "\<exists>t. t \<noteq> 0
           \<and> map_of (cache (backend (snd (service_set 0 ''k'' ''v'' None (service_init 3600))))) ''k''
               = Some \<lparr>entry_value = ''v'', entry_ttl = Some t, created_at = 0\<rparr>
           \<and> (3601 - 0 > real_of_int t
                \<longrightarrow> fst (service_get 3601 ''k''
                           (snd (service_set 0 ''k'' ''v'' None (service_init 3600)))) = None)"
    by (auto simp: d)
  then have 4: "fst (service_get 3601 ''k'' (snd (service_set 0 ''k'' ''v'' None (service_init 3600))))
       = None"
    by (elim exE conjE) simp
  from two_key_cache_reachable r m a 1 2 3 4 show ?thesis by simp
qed

section \<open>Properties of the confidence scorer\<close>

lemma bind_sum_Inr [simp]: "bind_sum (Inr x) f = f x"
  by (simp add: bind_sum_def)

lemma bind_sum_Inl [simp]: "bind_sum (Inl e) f = Inl e"
  by (simp add: bind_sum_def)

lemma bind_sum_eq_Inr: "bind_sum m f = Inr y \<longleftrightarrow> (\<exists>x. m = Inr x \<and> f x = Inr y)"
  by (cases m) auto

lemma dict_get_update_other: "k \<noteq> k' \<Longrightarrow> dict_get (AList.update k' v d) k = dict_get d k"
  by (simp add: dict_get_def update_conv')

lemma dict_get_update_same: "dict_get (AList.update k v d) k = v"
  by (simp add: dict_get_def update_conv')

lemma stripped_field_update_other:
  "k \<noteq> k' \<Longrightarrow> stripped_field (AList.update k' v d) k = stripped_field d k"
  by (simp add: stripped_field_def dict_get_update_other)

lemma present_fields_update_date:
  "present_fields (AList.update ''date'' v d) = present_fields d"
  by (simp add: present_fields_def bonus_fields_def dict_get_update_other)

lemma valid_ymd_nonempty: "valid_ymd d \<Longrightarrow> d \<noteq> []"
  by (auto simp: valid_ymd_def)

lemma date_score_absent: "map_of event ''date'' = None \<Longrightarrow> date_score event = Inr 0"
  by (simp add: date_score_def dict_get_def)

lemma date_score_valid:
  "valid_ymd d \<Longrightarrow> date_score (AList.update ''date'' (JStr d) event) = Inr 25"
  by (simp add: date_score_def dict_get_update_same valid_ymd_nonempty)

lemmas score_eval_defs =
  stripped_field_def dict_get_def strip_def lstrip_def rstrip_def is_space_def whitespace_def
  title_score_def has_keyword_def event_keywords_def lower_def lower_char_def date_score_def
  valid_ymd_def match_dash_def is_digit_def digit_val_def days_in_month_def is_leap_def
  location_score_def description_score_def present_fields_def bonus_fields_def

subsection \<open>Adding a valid date\<close>

text \<open>
  Claim C9. For every event dict without a \<open>date\<close> key on which \<open>score_event\<close> returns
  a score, and every string that \<open>strptime\<close> accepts as a date in the format
  \<open>%Y-%m-%d\<close>: \<open>score_event\<close> also returns on the event with that date stored under
  \<open>date\<close> and every other field unchanged, and the score it returns is no lower.
\<close>

theorem adding_valid_date_monotone:
  assumes "map_of event ''date'' = None" and "valid_ymd d"
    and "score_event (JObj event) = Inr s"
  shows "\<exists>s'. score_event (JObj (AList.update ''date'' (JStr d) event)) = Inr s' \<and> s \<le> s'"
proof -
  from assms(3) obtain title location description where
    t: "stripped_field event ''title'' = Inr title" and
    l: "stripped_field event ''location'' = Inr location" and
    ds: "stripped_field event ''description'' = Inr description"
    by (auto simp: bind_sum_eq_Inr)
  define rest where "rest = fst (title_score title) + location_score location
     + description_score description + (present_fields event / of_nat (length bonus_fields)) * 10"
  define max_score where "max_score = 30 + snd (title_score title) + 25 + 20 + 15 + (10::rat)"
  have pos: "0 < max_score"
    by (simp add: max_score_def title_score_def split: option.splits)
  from assms(1,3) t l ds have s: "s = min ((rest + 0) / max_score) 1"
    using pos by (simp add: date_score_absent rest_def max_score_def Let_def algebra_simps)
  from assms(2) t l ds
  have s': "score_event (JObj (AList.update ''date'' (JStr d) event))
              = Inr (min ((rest + 25) / max_score) 1)"
    using pos
    by (simp add: date_score_valid stripped_field_update_other present_fields_update_date
          rest_def max_score_def Let_def algebra_simps)
  from pos have "(rest + 0) / max_score \<le> (rest + 25) / max_score"
    by (simp add: divide_right_mono)
  with s s' show ?thesis by (auto simp: min_def)
qed


theorem adding_valid_date_monotone_witness:
  "map_of [(''title'', JStr ''Quarterly Meetup'')] ''date'' = None
   \<and> valid_ymd ''2024-06-15''
   \<and> score_event (JObj [(''title'', JStr ''Quarterly Meetup'')]) = Inr (1 / 3)
   \<and> (\<exists>s'. score_event (JObj (AList.update ''date'' (JStr ''2024-06-15'')
                                 [(''title'', JStr ''Quarterly Meetup'')])) = Inr s'
            \<and> 1 / 3 \<le> s')"
proof -
  have a: "map_of [(''title'', JStr ''Quarterly Meetup'')] ''date'' = None" by simp
  have v: "valid_ymd ''2024-06-15''" by (simp add: score_eval_defs)
  have e: "score_event (JObj [(''title'', JStr ''Quarterly Meetup'')]) = Inr (1 / 3)"
    by (simp add: score_eval_defs)
  from adding_valid_date_monotone [OF a v e] a v e show ?thesis by simp
qed

subsection \<open>The two example events\<close>

text \<open>
  Claim C2, as stated, is false: the first example event scores 5/7, about 0.714, which is
  below 0.8. Its location \<open>SF\<close> has two characters and the rubric gives the 20 points of
  the location only to a location of more than three; the title earns 30 and the keyword
  bonus 5 (which also raises the maximum to 105), the date 25, the description 15.
\<close>

theorem summit_example_counterexample:
  "score_event (summit_event ''A two-day summit on applied machine learning and AI safety.'')
     = Inr (5 / 7) \<and> (5 / 7 :: rat) < 8 / 10"
  by (simp add: summit_event_def score_eval_defs)

text \<open>
  Claim C2, amended. The event \<open>{title: "AI Summit 2024", date: "2024-06-15", location:
  "SF", description: d}\<close> with any description \<open>d\<close> of more than 50 characters receives a
  score between 4/7 and 5/7 (so at least 0.57 and below 0.8), and exactly 5/7 when \<open>d\<close>
  still has more than 50 characters after \<open>strip()\<close>; the event \<open>{title: "Event"}\<close>
  receives the score 0.
\<close>

theorem example_scores:
  "(length description > 50
      \<longrightarrow> (\<exists>s. score_event (summit_event description) = Inr s \<and> 4 / 7 \<le> s \<and> s \<le> 5 / 7
               \<and> (length (strip description) > 50 \<longrightarrow> s = 5 / 7)))
   \<and> score_event (JObj [(''title'', JStr ''Event'')]) = Inr 0"
proof -
  have 2: "score_event (JObj [(''title'', JStr ''Event'')]) = Inr 0"
    by (simp add: score_eval_defs)
  have 1: "\<exists>s. score_event (summit_event description) = Inr s \<and> 4 / 7 \<le> s \<and> s \<le> 5 / 7
               \<and> (length (strip description) > 50 \<longrightarrow> s = 5 / 7)"
    if "length description > 50"
  proof -
    from that have ne: "description \<noteq> []" by auto
    have st: "strip ''AI Summit 2024'' = ''AI Summit 2024''" "strip ''SF'' = ''SF''"
      by (simp_all add: strip_def lstrip_def rstrip_def is_space_def whitespace_def)
    define sc where "sc = (60 + description_score (Some (strip description))) / 105"
    have eq: "score_event (summit_event description) = Inr sc"
      using ne
      by (simp add: sc_def summit_event_def stripped_field_def dict_get_def st title_score_def
            has_keyword_def event_keywords_def lower_def lower_char_def date_score_def valid_ymd_def
            match_dash_def is_digit_def digit_val_def days_in_month_def is_leap_def location_score_def
            present_fields_def bonus_fields_def description_score_def)
    have "4 / 7 \<le> sc \<and> sc \<le> 5 / 7 \<and> (length (strip description) > 50 \<longrightarrow> sc = 5 / 7)"
      by (simp add: sc_def description_score_def)
    with eq show ?thesis by blast
  qed
  from 1 2 show ?thesis by blast
qed

theorem example_scores_witness:
  "length ''A two-day summit on applied machine learning and AI safety.'' > 50
   \<and> score_event (summit_event ''A two-day summit on applied machine learning and AI safety.'')
       = Inr (5 / 7)
   \<and> score_event (JObj [(''title'', JStr ''Event'')]) = Inr 0"
proof -
  have l: "length ''A two-day summit on applied machine learning and AI safety.'' > 50"
    and ls: "length (strip ''A two-day summit on applied machine learning and AI safety.'') > 50"
    by (simp_all add: strip_def lstrip_def rstrip_def is_space_def whitespace_def)
  from example_scores [of "''A two-day summit on applied machine learning and AI safety.''"] l ls
  show ?thesis by auto
qed

subsection \<open>Filtering by confidence\<close>

lemma dict_set_eq_Inr: "dict_set e k v = Inr e' \<longleftrightarrow> (\<exists>d. e = JObj d \<and> e' = JObj (AList.update k v d))"
  by (cases e) auto

lemma filter_entities_spec:
  "filter_entities score th es kept = Inr out \<Longrightarrow>
     out = kept @ map (attach_score score) (filter (retained score th) es)
     \<and> (\<forall>e \<in> set es. \<exists>c. score e = Inr c)"
proof (induction es arbitrary: kept)
  case Nil
  then show ?case by simp
next
  case (Cons e es)
  from Cons.prems obtain c where c: "score e = Inr c"
    by (auto simp: bind_sum_eq_Inr)
  show ?case
  proof (cases "th \<le> c")
    case True
    with Cons.prems c obtain d where d: "e = JObj d"
      and r: "filter_entities score th es (kept @ [JObj (AList.update ''confidence_score'' (JNum c) d)])
               = Inr out"
      by (auto simp: bind_sum_eq_Inr dict_set_eq_Inr)
    from Cons.IH [OF r] c d True show ?thesis
      by (simp add: attach_score_def retained_def)
  next
    case False
    with Cons.prems c have "filter_entities score th es kept = Inr out" by simp
    from Cons.IH [OF this] c False show ?thesis by (simp add: retained_def)
  qed
qed

text \<open>
  Claim C6. Whenever \<open>validate_and_filter\<close> returns, for any dataset dict and threshold:
  the three entity lists of the input could be iterated and every entity in them is a dict
  on which its scoring method returned; the result holds, in input order, exactly the
  entities whose score is at least the threshold (so an entity that scores exactly the
  threshold is kept, and one that scores below it is dropped), each with its computed score
  stored under \<open>confidence_score\<close>; and the \<open>topics\<close> and \<open>metadata\<close> of the result
  are those of the input (the empty list and the empty dict when the input has none).
\<close>

theorem filter_by_confidence:
  assumes "validate_and_filter url_pattern (JObj extracted_data) threshold = Inr filtered"
  shows "\<exists>events speakers companies.
     py_iter (dict_get_default extracted_data ''events'' (JArr [])) = Inr events
   \<and> py_iter (dict_get_default extracted_data ''speakers'' (JArr [])) = Inr speakers
   \<and> py_iter (dict_get_default extracted_data ''companies'' (JArr [])) = Inr companies
   \<and> filtered = JObj
       [(''events'', JArr (map (attach_score score_event)
                             (filter (retained score_event threshold) events))),
        (''speakers'', JArr (map (attach_score (score_speaker url_pattern))
                               (filter (retained (score_speaker url_pattern) threshold) speakers))),
        (''companies'', JArr (map (attach_score (score_company url_pattern))
                                (filter (retained (score_company url_pattern) threshold) companies))),
        (''topics'', dict_get_default extracted_data ''topics'' (JArr [])),
        (''metadata'', dict_get_default extracted_data ''metadata'' (JObj []))]
   \<and> (\<forall>e \<in> set events. \<exists>c. score_event e = Inr c
          \<and> (retained score_event threshold e \<longleftrightarrow> threshold \<le> c)
          \<and> (\<exists>d. e = JObj d
                \<and> attach_score score_event e = JObj (AList.update ''confidence_score'' (JNum c) d)))
   \<and> (\<forall>e \<in> set speakers. \<exists>c. score_speaker url_pattern e = Inr c
          \<and> (retained (score_speaker url_pattern) threshold e \<longleftrightarrow> threshold \<le> c)
          \<and> (\<exists>d. e = JObj d
                \<and> attach_score (score_speaker url_pattern) e
                    = JObj (AList.update ''confidence_score'' (JNum c) d)))
   \<and> (\<forall>e \<in> set companies. \<exists>c. score_company url_pattern e = Inr c
          \<and> (retained (score_company url_pattern) threshold e \<longleftrightarrow> threshold \<le> c)
          \<and> (\<exists>d. e = JObj d
                \<and> attach_score (score_company url_pattern) e
                    = JObj (AList.update ''confidence_score'' (JNum c) d)))"
proof -
  from assms obtain events events' speakers speakers' companies companies' where
    ev: "py_iter (dict_get_default extracted_data ''events'' (JArr [])) = Inr events"
    and ev': "filter_entities score_event threshold events [] = Inr events'"
    and sp: "py_iter (dict_get_default extracted_data ''speakers'' (JArr [])) = Inr speakers"
    and sp': "filter_entities (score_speaker url_pattern) threshold speakers [] = Inr speakers'"
    and co: "py_iter (dict_get_default extracted_data ''companies'' (JArr [])) = Inr companies"
    and co': "filter_entities (score_company url_pattern) threshold companies [] = Inr companies'"
    and out: "filtered = JObj [(''events'', JArr events'), (''speakers'', JArr speakers'),
                  (''companies'', JArr companies'),
                  (''topics'', dict_get_default extracted_data ''topics'' (JArr [])),
                  (''metadata'', dict_get_default extracted_data ''metadata'' (JObj []))]"
    by (auto simp: bind_sum_eq_Inr)
  note e = filter_entities_spec [OF ev'] and s = filter_entities_spec [OF sp']
    and c = filter_entities_spec [OF co']
  have each: "\<exists>c. score e = Inr c \<and> (retained score threshold e \<longleftrightarrow> threshold \<le> c)
          \<and> (\<exists>d. e = JObj d
                \<and> attach_score score e = JObj (AList.update ''confidence_score'' (JNum c) d))"
    if "\<exists>c. score e = Inr c" and "\<And>x c. score x = Inr c \<Longrightarrow> \<exists>d. x = JObj d"
    for score :: "json \<Rightarrow> py_error + rat" and e
  proof -
    from that(1) obtain c where c: "score e = Inr c" by blast
    with that(2) obtain d where "e = JObj d" by blast
    with c show ?thesis by (simp add: retained_def attach_score_def)
  qed
  have d1: "\<exists>d. x = JObj d" if "score_event x = Inr c" for x c
    using that by (cases x) auto
  have d2: "\<exists>d. x = JObj d" if "score_speaker url_pattern x = Inr c" for x c
    using that by (cases x) auto
  have d3: "\<exists>d. x = JObj d" if "score_company url_pattern x = Inr c" for x c
    using that by (cases x) auto
  from e have E: "\<forall>e \<in> set events. \<exists>c. score_event e = Inr c
          \<and> (retained score_event threshold e \<longleftrightarrow> threshold \<le> c)
          \<and> (\<exists>d. e = JObj d
                \<and> attach_score score_event e = JObj (AList.update ''confidence_score'' (JNum c) d))"
    using each [of score_event] d1 by blast
  from s have S: "\<forall>e \<in> set speakers. \<exists>c. score_speaker url_pattern e = Inr c
          \<and> (retained (score_speaker url_pattern) threshold e \<longleftrightarrow> threshold \<le> c)
          \<and> (\<exists>d. e = JObj d
                \<and> attach_score (score_speaker url_pattern) e
                    = JObj (AList.update ''confidence_score'' (JNum c) d))"
    using each [of "score_speaker url_pattern"] d2 by blast
  from c have C: "\<forall>e \<in> set companies. \<exists>c. score_company url_pattern e = Inr c
          \<and> (retained (score_company url_pattern) threshold e \<longleftrightarrow> threshold \<le> c)
          \<and> (\<exists>d. e = JObj d
                \<and> attach_score (score_company url_pattern) e
                    = JObj (AList.update ''confidence_score'' (JNum c) d))"
    using each [of "score_company url_pattern"] d3 by blast
  from e s c have "filtered = JObj
       [(''events'', JArr (map (attach_score score_event)
                             (filter (retained score_event threshold) events))),
        (''speakers'', JArr (map (attach_score (score_speaker url_pattern))
                               (filter (retained (score_speaker url_pattern) threshold) speakers))),
        (''companies'', JArr (map (attach_score (score_company url_pattern))
                                (filter (retained (score_company url_pattern) threshold) companies))),
        (''topics'', dict_get_default extracted_data ''topics'' (JArr [])),
        (''metadata'', dict_get_default extracted_data ''metadata'' (JObj []))]"
    by (simp add: out)
  with ev sp co E S C show ?thesis by blast
qed


theorem filter_by_confidence_witness:
  "validate_and_filter (\<lambda>url. startswith url ''http'')
     (JObj [(''events'', JArr [summit_event (replicate 51 CHR ''x''),
                               JObj [(''title'', JStr ''Quarterly Meetup'')]]),
            (''topics'', JArr [JStr ''AI''])]) (5 / 7)
   = Inr (JObj [(''events'', JArr [JObj [(''title'', JStr ''AI Summit 2024''),
                                         (''date'', JStr ''2024-06-15''),
                                         (''location'', JStr ''SF''),
                                         (''description'', JStr (replicate 51 CHR ''x'')),
                                         (''confidence_score'', JNum (5 / 7))]]),
                (''speakers'', JArr []), (''companies'', JArr []),
                (''topics'', JArr [JStr ''AI'']), (''metadata'', JObj [])])
   \<and> retained score_event (5 / 7) (summit_event (replicate 51 CHR ''x''))
   \<and> \<not> retained score_event (5 / 7) (JObj [(''title'', JStr ''Quarterly Meetup'')])"
proof -
  let ?d = "[(''events'', JArr [summit_event (replicate 51 CHR ''x''),
                               JObj [(''title'', JStr ''Quarterly Meetup'')]]),
             (''topics'', JArr [JStr ''AI''])]"
  have s1: "score_event (summit_event (replicate 51 CHR ''x'')) = Inr (5 / 7)"
    by (simp add: summit_event_def score_eval_defs)
  have s2: "score_event (JObj [(''title'', JStr ''Quarterly Meetup'')]) = Inr (1 / 3)"
    by (simp add: score_eval_defs)
  have ev: "validate_and_filter (\<lambda>url. startswith url ''http'') (JObj ?d) (5 / 7)
     = Inr (JObj [(''events'', JArr [JObj [(''title'', JStr ''AI Summit 2024''),
                                         (''date'', JStr ''2024-06-15''),
                                         (''location'', JStr ''SF''),
                                         (''description'', JStr (replicate 51 CHR ''x'')),
                                         (''confidence_score'', JNum (5 / 7))]]),
                (''speakers'', JArr []), (''companies'', JArr []),
                (''topics'', JArr [JStr ''AI'']), (''metadata'', JObj [])])"
    by (simp add: dict_get_default_def s1 s2 del: score_event.simps) (simp add: summit_event_def)
  have it: "py_iter (dict_get_default ?d ''events'' (JArr []))
      = Inr [summit_event (replicate 51 CHR ''x''), JObj [(''title'', JStr ''Quarterly Meetup'')]]"
    by (simp add: dict_get_default_def)
  from filter_by_confidence [OF ev] it s1 s2
  have "retained score_event (5 / 7) (summit_event (replicate 51 CHR ''x''))
   \<and> \<not> retained score_event (5 / 7) (JObj [(''title'', JStr ''Quarterly Meetup'')])"
    by auto
  with ev show ?thesis by simp
qed

section \<open>Properties of the LLM client\<close>

lemma body_not_retryable:
  "extract_content_body outcome = Inl e \<Longrightarrow> \<not> retry_if_exception_type e"
  by (auto simp: extract_content_body_def split: sum.splits)

text \<open>
  Whatever the provider does, \<open>extract_content\<close> makes exactly one call and sleeps never:
  every exception of the provider reaches the decorator as \<open>OpenAIServiceError\<close>, which
  the predicate rejects.
\<close>

lemma extract_content_single_attempt:
  "extract_content provider = (extract_content_body (provider 1), 1, [])"
proof (cases "extract_content_body (provider 1)")
  case (Inl e)
  then have "\<not> retry_if_exception_type e" by (rule body_not_retryable)
  with Inl show ?thesis by (simp add: extract_content_def retrying.simps)
next
  case (Inr r)
  then show ?thesis by (simp add: extract_content_def retrying.simps)
qed

text \<open>
  Around the bare provider call the decorator does what the configuration says: with a
  rate-limit error at the first call and a response at the second, it sleeps 4 seconds,
  calls again and returns the response.
\<close>

lemma retrying_bare_call:
  "retrying (bare_call flaky_provider) 1 []
     = (Inr \<lparr>completion_content = ''{}'', completion_model = ''gpt-4'', prompt_tokens = 10,
              completion_tokens = 1, total_tokens = 11\<rparr>, 2, [4])"
  by (simp add: retrying.simps bare_call_def flaky_provider_def stop_after_attempt_def
        wait_exponential_def)

text \<open>
  Claim C1 says that a rate-limit error at the first attempt is retried and that the
  operation succeeds when a later attempt within the budget of three succeeds. With a
  provider whose first call raises a rate-limit error and whose second call would return
  a response, \<open>extract_content\<close> raises \<open>OpenAIServiceError\<close> after a single call and no
  wait.
\<close>

theorem transient_failure_not_retried:
  "extract_content flaky_provider
     = (Inl (OpenAIServiceError ''Content extraction failed: Error code: 429''), 1, [])"
  by (simp add: extract_content_def retrying.simps extract_content_body_def flaky_provider_def)

section \<open>Properties of the response parser\<close>

text \<open>
  When neither the text nor its repaired form can be decoded, the parser returns the empty
  dataset with \<open>extraction_quality\<close> set to \<open>failed\<close>; it never raises once the first
  decoding has failed.
\<close>

lemma parse_falls_back:
  assumes "loads response_content = None"
    and "loads (fix_json_response response_content) = None"
  shows "parse_openai_response loads response_content = Inr failed_dataset"
  using assms by (simp add: parse_openai_response_def)

lemma failed_dataset_has_required_keys: "has_required_keys failed_dataset"
  by (simp add: has_required_keys_def failed_dataset_def required_keys_def)

text \<open>When the text itself decodes to a dict, the missing fields are filled in.\<close>

lemma fill_defaults_dict:
  "\<exists>d'. fill_defaults keys (JObj d) = Inr (JObj d')
     \<and> (\<forall>k. map_of d' k \<noteq> None \<longleftrightarrow> map_of d k \<noteq> None \<or> k \<in> set keys)
     \<and> (\<forall>k v. map_of d k = Some v \<longrightarrow> map_of d' k = Some v)"
proof (induction keys arbitrary: d)
  case Nil
  then show ?case by simp
next
  case (Cons key keys)
  show ?case
  proof (cases "map_of d key = None")
    case False
    with Cons.IH [of d] show ?thesis by auto
  next
    case True
    let ?v = "if key \<noteq> ''metadata'' then JArr [] else JObj []"
    from Cons.IH [of "AList.update key ?v d"] obtain d' where
      f: "fill_defaults keys (JObj (AList.update key ?v d)) = Inr (JObj d')"
      and k: "\<forall>k. map_of d' k \<noteq> None
                \<longleftrightarrow> map_of (AList.update key ?v d) k \<noteq> None \<or> k \<in> set keys"
      and v: "\<forall>k v. map_of (AList.update key ?v d) k = Some v \<longrightarrow> map_of d' k = Some v"
      by blast
    from True f have "fill_defaults (key # keys) (JObj d) = Inr (JObj d')" by simp
    moreover from k have "\<forall>k. map_of d' k \<noteq> None
        \<longleftrightarrow> map_of d k \<noteq> None \<or> k \<in> set (key # keys)"
      by (auto simp: update_conv')
    moreover have "map_of d' k = Some v" if "map_of d k = Some v" for k v
    proof -
      from that True have "k \<noteq> key" by auto
      with that have "map_of (AList.update key ?v d) k = Some v" by (simp add: update_conv')
      with v show ?thesis by blast
    qed
    ultimately show ?thesis by blast
  qed
qed

lemma parse_direct_fills_defaults:
  assumes "loads response_content = Some (JObj d)"
  shows "\<exists>d'. parse_openai_response loads response_content = Inr (JObj d')
           \<and> has_required_keys (JObj d')"
proof -
  from fill_defaults_dict [of required_keys d] obtain d' where
    "fill_defaults required_keys (JObj d) = Inr (JObj d')"
    and "\<forall>k. map_of d' k \<noteq> None \<longleftrightarrow> map_of d k \<noteq> None \<or> k \<in> set required_keys"
    by blast
  with assms show ?thesis
    by (auto simp: parse_openai_response_def has_required_keys_def required_keys_def)
qed

text \<open>
  Claim C3 says that every returned dataset has the five top-level fields. On the text
  \<open>{"events": [],}\<close> the first decoding fails, the repair removes the comma, the second
  decoding succeeds, and the parser returns the decoded dict as it is: it has \<open>events\<close>
  and none of \<open>speakers\<close>, \<open>companies\<close>, \<open>topics\<close> and \<open>metadata\<close>. The loop that
  fills the defaults is on the path of the first decoding only.
\<close>

theorem repaired_response_lacks_defaults:
  "json_loads trailing_comma_response = None
   \<and> fix_json_response trailing_comma_response = ''{'' @ [CHR 0x22] @ ''events'' @ [CHR 0x22] @ '': []}''
   \<and> parse_openai_response json_loads trailing_comma_response = Inr (JObj [(''events'', JArr [])])
   \<and> has_required_keys (JObj [(''events'', JArr [])]) = False"
  by (simp add: trailing_comma_response_def parse_openai_response_def json_loads_def skip_ws_def
        json_ws_def control_chars_def fix_json_response_def strip_def lstrip_def rstrip_def
        is_space_def whitespace_def endswith_def has_required_keys_def required_keys_def)

section \<open>Properties of batch extraction\<close>

lemma length_gather: "length (gather run i tasks) = length tasks"
  by (induction tasks arbitrary: i) auto

lemma nth_gather: "j < length tasks \<Longrightarrow> gather run i tasks ! j = run (i + j) (tasks ! j)"
proof (induction tasks arbitrary: i j)
  case Nil
  then show ?case by simp
next
  case (Cons t ts)
  then show ?case by (cases j) auto
qed

lemma collect_results_ok:
  "i + length completed \<le> length requests \<Longrightarrow>
   \<exists>results. collect_results requests i completed = Inr results
     \<and> length results = length completed
     \<and> (\<forall>j < length completed.
           results ! j = batch_entry_of (req_url (requests ! (i + j))) (completed ! j))"
proof (induction completed arbitrary: i)
  case Nil
  then show ?case by simp
next
  case (Cons result rest)
  from Cons.prems have i: "i < length requests" and "Suc i + length rest \<le> length requests"
    by auto
  from Cons.IH [OF this(2)] obtain results where
    r: "collect_results requests (Suc i) rest = Inr results"
    and l: "length results = length rest"
    and n: "\<forall>j < length rest.
              results ! j = batch_entry_of (req_url (requests ! (Suc i + j))) (rest ! j)"
    by blast
  let ?entry = "batch_entry_of (req_url (requests ! i)) result"
  from i r have "collect_results requests i (result # rest) = Inr (?entry # results)"
    by simp
  moreover have "(?entry # results) ! j
      = batch_entry_of (req_url (requests ! (i + j))) ((result # rest) ! j)"
    if "j < length (result # rest)" for j
    using that n by (cases j) auto
  ultimately show ?case using l by auto
qed

text \<open>
  Claim C7. For every list of requests and every way the single-item operations turn out,
  \<open>extract_batch\<close> returns a list with one entry per request, in the order of the
  requests: where the operation for request \<open>i\<close> raised, entry \<open>i\<close> is the failure record
  with the exception's text and the request's url; where it returned, entry \<open>i\<close> is the
  success record with the extracted data, the confidence scores, the processing time in
  milliseconds, the cache-hit flag and the request's url of that result, whatever the other
  operations did.
\<close>

theorem batch_isolation:
  "\<exists>results. extract_batch run requests = Inr results
     \<and> length results = length requests
     \<and> (\<forall>i < length requests.
           (\<forall>exn. run i (make_task (requests ! i)) = Inl exn
                   \<longrightarrow> results ! i = BatchFailure exn (req_url (requests ! i)))
         \<and> (\<forall>r. run i (make_task (requests ! i)) = Inr r
                   \<longrightarrow> results ! i = BatchSuccess (res_extracted_data r) (res_confidence_scores r)
                                       (py_int (res_processing_time r * 1000)) (res_cache_hit r)
                                       (req_url (requests ! i))))"
proof -
  let ?completed = "gather run 0 (map make_task requests)"
  have len: "length ?completed = length requests" by (simp add: length_gather)
  then have "0 + length ?completed \<le> length requests" by simp
  from collect_results_ok [OF this] obtain results where
    r: "collect_results requests 0 ?completed = Inr results"
    and l: "length results = length ?completed"
    and n: "\<forall>j < length ?completed.
              results ! j = batch_entry_of (req_url (requests ! (0 + j))) (?completed ! j)"
    by blast
  have "results ! i = batch_entry_of (req_url (requests ! i)) (run i (make_task (requests ! i)))"
    if "i < length requests" for i
    using that n len nth_gather [of i "map make_task requests" run 0] by simp
  then have "\<forall>i < length requests.
           (\<forall>exn. run i (make_task (requests ! i)) = Inl exn
                   \<longrightarrow> results ! i = BatchFailure exn (req_url (requests ! i)))
         \<and> (\<forall>r. run i (make_task (requests ! i)) = Inr r
                   \<longrightarrow> results ! i = BatchSuccess (res_extracted_data r) (res_confidence_scores r)
                                       (py_int (res_processing_time r * 1000)) (res_cache_hit r)
                                       (req_url (requests ! i)))"
    by (simp add: batch_entry_of_def)
  with r l len show ?thesis by (auto simp: extract_batch_def)
qed

theorem batch_isolation_witness:
  "\<exists>results. extract_batch example_run example_requests = Inr results
     \<and> length results = 3
     \<and> results ! 0 = BatchSuccess (JObj [(''events'', JArr [JObj [(''title'', JStr ''<h1>A</h1>'')]])])
                        [(''overall'', 3 / 10)] 1250 False ''https://a.example''
     \<and> results ! 1 = BatchFailure
                        ''OpenAI API call failed: Content extraction failed: Error code: 429''
                        ''https://b.example''
     \<and> results ! 2 = BatchSuccess (JObj [(''events'', JArr [JObj [(''title'', JStr ''<h1>C</h1>'')]])])
                        [(''overall'', 3 / 10)] 1250 False ''https://c.example''"
proof -
  from batch_isolation [of example_run example_requests] obtain results where
    r: "extract_batch example_run example_requests = Inr results"
    and l: "length results = length example_requests"
    and n: "\<forall>i < length example_requests.
           (\<forall>exn. example_run i (make_task (example_requests ! i)) = Inl exn
                   \<longrightarrow> results ! i = BatchFailure exn (req_url (example_requests ! i)))
         \<and> (\<forall>r. example_run i (make_task (example_requests ! i)) = Inr r
                   \<longrightarrow> results ! i = BatchSuccess (res_extracted_data r) (res_confidence_scores r)
                                       (py_int (res_processing_time r * 1000)) (res_cache_hit r)
                                       (req_url (example_requests ! i)))"
    by blast
  have len: "length example_requests = 3" by (simp add: example_requests_def)
  have t: "py_int 1250 = 1250" by (simp add: py_int_def)
  from n [rule_format, of 0] len
  have "results ! 0 = BatchSuccess (JObj [(''events'', JArr [JObj [(''title'', JStr ''<h1>A</h1>'')]])])
                        [(''overall'', 3 / 10)] 1250 False ''https://a.example''"
    by (simp add: example_run_def example_requests_def example_result_def make_task_def t)
  moreover from n [rule_format, of 1] len
  have "results ! 1 = BatchFailure
                        ''OpenAI API call failed: Content extraction failed: Error code: 429''
                        ''https://b.example''"
    by (simp add: example_run_def example_requests_def)
  moreover from n [rule_format, of 2] len
  have "results ! 2 = BatchSuccess (JObj [(''events'', JArr [JObj [(''title'', JStr ''<h1>C</h1>'')]])])
                        [(''overall'', 3 / 10)] 1250 False ''https://c.example''"
    by (simp add: example_run_def example_requests_def example_result_def make_task_def t)
  ultimately show ?thesis using r l len by simp
qed

section \<open>Properties of the cache key generator\<close>

lemma length_hex_word: "length (hex_word w) = 8"
  by (simp add: hex_word_def)

lemma set_hex_word: "set (hex_word w) \<subseteq> set hex_chars"
proof -
  have "hex_digit n \<in> set hex_chars" for n
    unfolding hex_digit_def by (rule nth_mem) (simp add: hex_chars_def)
  then show ?thesis by (auto simp: hex_word_def)
qed

lemma length_hexdigest: "length (hexdigest st) = 64"
  by (simp add: hexdigest_def length_hex_word split: prod.splits)

lemma set_hexdigest: "set (hexdigest st) \<subseteq> set hex_chars"
  using set_hex_word by (auto simp: hexdigest_def split: prod.splits)

lemma length_sha256_hex: "length (sha256_hex s) = 64"
  by (simp add: sha256_hex_def length_hexdigest)

lemma set_sha256_hex: "set (sha256_hex s) \<subseteq> set hex_chars"
  by (simp add: sha256_hex_def set_hexdigest)

lemma key_mode_injective:
  assumes "''extraction:'' @ m1 @ '':'' @ p1 = ''extraction:'' @ m2 @ '':'' @ p2"
    and "length p1 = length p2"
  shows "m1 = m2"
proof -
  from assms(1) have "(m1 @ '':'') @ p1 = (m2 @ '':'') @ p2"
    by (simp only: append_assoc same_append_eq)
  with assms(2) have "m1 @ '':'' = m2 @ '':''" by (metis append_eq_append_conv)
  then show ?thesis by simp
qed

text \<open>
  Claim C8. For every rendering \<open>soup\<close> of the HTML library: two texts with the same
  normalised form and the same extraction mode get the same key; two calls with different
  extraction modes get different keys, whatever the two texts are (also when they are the
  same text); and the key is \<open>extraction:\<close>, the mode, a colon, and the first 16
  characters of the SHA-256 hex digest of the normalised text, which are 16 lower-case
  hexadecimal digits.
\<close>

theorem cache_key_deterministic:
  "(normalize_for_cache soup h1 = normalize_for_cache soup h2
      \<longrightarrow> generate_cache_key soup h1 m1 = generate_cache_key soup h2 m1)
   \<and> (m1 \<noteq> m2 \<longrightarrow> generate_cache_key soup h1 m1 \<noteq> generate_cache_key soup h2 m2)
   \<and> generate_cache_key soup h1 m1
       = ''extraction:'' @ m1 @ '':'' @ take 16 (sha256_hex (normalize_for_cache soup h1))
   \<and> length (take 16 (sha256_hex (normalize_for_cache soup h1))) = 16
   \<and> set (take 16 (sha256_hex (normalize_for_cache soup h1))) \<subseteq> set hex_chars"
proof -
  let ?p1 = "take 16 (sha256_hex (normalize_for_cache soup h1))"
  let ?p2 = "take 16 (sha256_hex (normalize_for_cache soup h2))"
  have l: "length ?p1 = 16" "length ?p2 = 16" by (simp_all add: length_sha256_hex)
  have shape: "generate_cache_key soup h m = ''extraction:'' @ m @ '':''
                 @ take 16 (sha256_hex (normalize_for_cache soup h))" for h m
    by (simp only: generate_cache_key_def Let_def)
  have same: "generate_cache_key soup h1 m1 = generate_cache_key soup h2 m1"
    if "normalize_for_cache soup h1 = normalize_for_cache soup h2"
    using that by (simp only: shape)
  have differ: "generate_cache_key soup h1 m1 \<noteq> generate_cache_key soup h2 m2" if "m1 \<noteq> m2"
  proof
    assume "generate_cache_key soup h1 m1 = generate_cache_key soup h2 m2"
    then have "''extraction:'' @ m1 @ '':'' @ ?p1 = ''extraction:'' @ m2 @ '':'' @ ?p2"
      by (simp only: shape)
    moreover from l have "length ?p1 = length ?p2" by simp
    ultimately have "m1 = m2" by (rule key_mode_injective)
    with that show False by contradiction
  qed
  have hex: "set ?p1 \<subseteq> set hex_chars"
    by (rule subset_trans [OF set_take_subset set_sha256_hex])
  show ?thesis
  proof (intro conjI impI)
    assume "normalize_for_cache soup h1 = normalize_for_cache soup h2"
    then show "generate_cache_key soup h1 m1 = generate_cache_key soup h2 m1" by (rule same)
  next
    assume "m1 \<noteq> m2"
    then show "generate_cache_key soup h1 m1 \<noteq> generate_cache_key soup h2 m2" by (rule differ)
  next
    show "generate_cache_key soup h1 m1 = ''extraction:'' @ m1 @ '':'' @ ?p1" by (rule shape)
  next
    show "length ?p1 = 16" by (rule l(1))
  next
    show "set ?p1 \<subseteq> set hex_chars" by (rule hex)
  qed
qed

theorem cache_key_deterministic_witness:
  "normalize_for_cache Some ''AI  Summit'' = normalize_for_cache Some ''AI Summit ''
   \<and> generate_cache_key Some ''AI  Summit'' ''full''
       = generate_cache_key Some ''AI Summit '' ''full''
   \<and> ''full'' \<noteq> ''events_only''
   \<and> generate_cache_key Some ''AI  Summit'' ''full''
       \<noteq> generate_cache_key Some ''AI Summit '' ''events_only''"
proof -
  have n: "normalize_for_cache Some ''AI  Summit'' = normalize_for_cache Some ''AI Summit ''"
    by (simp add: normalize_for_cache_def split_def is_space_def whitespace_def)
  have m: "''full'' \<noteq> ''events_only''" by simp
  note k = cache_key_deterministic
             [of Some "''AI  Summit''" "''AI Summit ''" "''full''" "''events_only''"]
  from k [THEN conjunct1, THEN mp, OF n]
  have same: "generate_cache_key Some ''AI  Summit'' ''full''
       = generate_cache_key Some ''AI Summit '' ''full''" .
  from k [THEN conjunct2, THEN conjunct1, THEN mp, OF m]
  have differ: "generate_cache_key Some ''AI  Summit'' ''full''
       \<noteq> generate_cache_key Some ''AI Summit '' ''events_only''" .
  from n same m differ show ?thesis by (intro conjI)
qed

end
